theory Spec2Isabelle
  imports Main "HOL-Library.AList"
begin

section \<open>Grids and Python list access\<close>

text \<open>
  A grid is a Python list of lists of ints (\<open>board[row][col]\<close>, 0 for an empty cell).
  The source never checks the shape of a grid, so the model takes any list of lists and
  writes out what Python does with an index that is out of range: it raises
  \<open>IndexError\<close>.  All indices of the source come from \<open>range(...)\<close> or from the
  documented precondition \<open>0 \<le> row, col \<le> 8\<close>, so they are natural numbers.
  Rows are values here, which is what a function that reads a grid sees, and what an
  assignment does when no two rows of the grid are the same list object, as is the
  case for every grid the source builds itself.  The section on grids whose rows may
  be one list object gives the assignments on any grid.
\<close>

datatype py_error = IndexError

type_synonym grid = "int list list"

definition cell :: "grid \<Rightarrow> nat \<Rightarrow> nat \<Rightarrow> py_error + int" where
  "cell board r c =
     (if r < length board \<and> c < length (board ! r) then Inr (board ! r ! c)
      else Inl IndexError)"

text \<open>The grid after the assignment \<open>board[r][c] = v\<close>, for \<open>(r, c)\<close> in range.\<close>

definition put :: "grid \<Rightarrow> nat \<Rightarrow> nat \<Rightarrow> int \<Rightarrow> grid" where
  "put board r c v = board[r := (board ! r)[c := v]]"

definition set_cell :: "grid \<Rightarrow> nat \<Rightarrow> nat \<Rightarrow> int \<Rightarrow> py_error + grid" where
  "set_cell board r c v =
     (if r < length board \<and> c < length (board ! r) then Inr (put board r c v)
      else Inl IndexError)"

text \<open>\<open>[[0] * 9 for _ in range(9)]\<close>\<close>

definition empty_grid :: grid where
  "empty_grid = replicate 9 (replicate 9 0)"

text \<open>The cells visited by the loops of the source, in the order of the loops.\<close>

definition column_cells :: "nat \<Rightarrow> (nat \<times> nat) list" where
  "column_cells col = map (\<lambda>r. (r, col)) [0..<9]"

definition row_cells :: "nat \<Rightarrow> (nat \<times> nat) list" where
  "row_cells row = map (\<lambda>c. (row, c)) [0..<9]"

definition block_cells :: "nat \<Rightarrow> nat \<Rightarrow> (nat \<times> nat) list" where
  "block_cells box_row box_col =
     concat (map (\<lambda>r. map (\<lambda>c. (r, c)) [box_col..<box_col + 3]) [box_row..<box_row + 3])"

definition box_cells :: "nat \<Rightarrow> nat \<Rightarrow> (nat \<times> nat) list" where
  "box_cells row col =
     (let box_row = (row div 3) * 3; box_col = (col div 3) * 3
      in block_cells box_row box_col)"

definition all_cells :: "(nat \<times> nat) list" where
  "all_cells = concat (map (\<lambda>r. map (\<lambda>c. (r, c)) [0..<9]) [0..<9])"

text \<open>
  \<open>for ... : if board[r][c] == num: return False\<close>: a scan with an early exit.
  It reads the cells in order and stops at the first hit, so a cell that is out of
  range behind the hit is never read.
\<close>

fun any_cell :: "grid \<Rightarrow> int \<Rightarrow> (nat \<times> nat) list \<Rightarrow> py_error + bool" where
  "any_cell board num [] = Inr False"
| "any_cell board num ((r, c) # ps) =
     (case cell board r c of
        Inl e \<Rightarrow> Inl e
      | Inr v \<Rightarrow> if v = num then Inr True else any_cell board num ps)"

section \<open>SudokuBoard\<close>

text \<open>\<open>SudokuBoard._is_valid_placement\<close>\<close>

definition is_valid_placement :: "grid \<Rightarrow> nat \<Rightarrow> nat \<Rightarrow> int \<Rightarrow> py_error + bool" where
  "is_valid_placement board row col num =
     (if \<not> row < length board then Inl IndexError
      else if num \<in> set (board ! row) then Inr False
      else case any_cell board num (column_cells col) of
             Inl e \<Rightarrow> Inl e
           | Inr True \<Rightarrow> Inr False
           | Inr False \<Rightarrow>
               (case any_cell board num (box_cells row col) of
                  Inl e \<Rightarrow> Inl e
                | Inr True \<Rightarrow> Inr False
                | Inr False \<Rightarrow> Inr True))"

text \<open>\<open>SudokuBoard._find_empty_cell\<close>: the first empty cell in row-major order.\<close>

fun first_empty :: "grid \<Rightarrow> (nat \<times> nat) list \<Rightarrow> py_error + (nat \<times> nat) option" where
  "first_empty board [] = Inr None"
| "first_empty board ((row, col) # ps) =
     (case cell board row col of
        Inl e \<Rightarrow> Inl e
      | Inr v \<Rightarrow> if v = 0 then Inr (Some (row, col)) else first_empty board ps)"

definition find_empty_cell :: "grid \<Rightarrow> py_error + (nat \<times> nat) option" where
  "find_empty_cell board = first_empty board all_cells"

text \<open>
  \<open>SudokuBoard._solve_with_backtracking\<close> works on the grid in place and returns a
  bool; the model returns the bool and the grid after the call.  \<open>try_numbers\<close> is
  the loop \<open>for num in range(1, 10)\<close> at the cell \<open>(row, col)\<close>, with the digits
  still to try.
\<close>

function solve_with_backtracking :: "grid \<Rightarrow> py_error + (bool \<times> grid)"
  and try_numbers :: "grid \<Rightarrow> nat \<Rightarrow> nat \<Rightarrow> int list \<Rightarrow> py_error + (bool \<times> grid)"
where
  "solve_with_backtracking board =
     (case find_empty_cell board of
        Inl e \<Rightarrow> Inl e
      | Inr None \<Rightarrow> Inr (True, board)
      | Inr (Some (row, col)) \<Rightarrow> try_numbers board row col [1..9])"
| "try_numbers board row col [] = Inr (False, board)"
| "try_numbers board row col (num # nums) =
     (case is_valid_placement board row col num of
        Inl e \<Rightarrow> Inl e
      | Inr False \<Rightarrow> try_numbers board row col nums
      | Inr True \<Rightarrow>
          (case set_cell board row col num of
             Inl e \<Rightarrow> Inl e
           | Inr board1 \<Rightarrow>
               (case solve_with_backtracking board1 of
                  Inl e \<Rightarrow> Inl e
                | Inr (True, board2) \<Rightarrow> Inr (True, board2)
                | Inr (False, board2) \<Rightarrow>
                    (case set_cell board2 row col 0 of
                       Inl e \<Rightarrow> Inl e
                     | Inr board3 \<Rightarrow> try_numbers board3 row col nums))))"
  by pat_completeness auto

subsection \<open>Termination of the search\<close>

text \<open>
  The search terminates because every recursive call works on a grid with fewer empty
  cells among the 81 cells that \<open>_find_empty_cell\<close> scans.  The loop goes on after a
  failed recursive call, so the argument needs that a failed call gives the grid back
  as it was.
\<close>

definition empties :: "grid \<Rightarrow> (nat \<times> nat) set" where
  "empties g = {p \<in> set all_cells. cell g (fst p) (snd p) = Inr 0}"

lemma put_put: "put (put g r c a) r c b = put g r c b"
  by (cases "r < length g") (simp_all add: put_def list_update_beyond)

lemma put_same: "cell g r c = Inr v \<Longrightarrow> put g r c v = g"
  by (auto simp add: cell_def put_def list_update_same_conv split: if_splits)

lemma set_cell_Inr: "set_cell g r c v = Inr g' \<Longrightarrow> g' = put g r c v"
  by (auto simp add: set_cell_def split: if_splits)

lemma cell_put_other:
  assumes "(r', c') \<noteq> (r, c)"
  shows "cell (put g r c v) r' c' = cell g r' c'"
proof (cases "r' = r")
  case True
  with assms show ?thesis
    by (cases "r < length g") (auto simp add: cell_def put_def)
next
  case False
  then show ?thesis
    by (simp add: cell_def put_def)
qed

lemma cell_put_same: "cell (put g r c v) r c \<noteq> Inr 0 \<or> v = 0"
  by (auto simp add: cell_def put_def nth_list_update)

lemma empties_put_other: "empties (put g r c v) - {(r, c)} = empties g - {(r, c)}"
proof (intro set_eqI iffI)
  fix p
  assume p: "p \<in> empties (put g r c v) - {(r, c)}"
  obtain a b where ab: "p = (a, b)" by (cases p)
  from p ab have "(a, b) \<noteq> (r, c)" by simp
  then have "cell (put g r c v) a b = cell g a b" by (rule cell_put_other)
  with p ab show "p \<in> empties g - {(r, c)}" by (simp add: empties_def)
next
  fix p
  assume p: "p \<in> empties g - {(r, c)}"
  obtain a b where ab: "p = (a, b)" by (cases p)
  from p ab have "(a, b) \<noteq> (r, c)" by simp
  then have "cell (put g r c v) a b = cell g a b" by (rule cell_put_other)
  with p ab show "p \<in> empties (put g r c v) - {(r, c)}" by (simp add: empties_def)
qed

lemma finite_empties: "finite (empties g)"
  by (simp add: empties_def)

lemma card_empties_put:
  "card (empties (put g r c v)) \<le> card (empties g - {(r, c)}) + (if v = 0 then 1 else 0)"
proof (cases "(r, c) \<in> empties (put g r c v)")
  case True
  have "cell (put g r c v) r c = Inr 0"
    using True by (simp add: empties_def)
  then have "v = 0"
    using cell_put_same [of g r c v] by blast
  moreover have "card (empties (put g r c v)) = Suc (card (empties (put g r c v) - {(r, c)}))"
    using finite_empties True by (rule card.remove)
  ultimately show ?thesis
    by (simp only: empties_put_other) simp
next
  case False
  then have "empties (put g r c v) - {(r, c)} = empties (put g r c v)" by blast
  from this [symmetric] empties_put_other [of g r c v]
  have "empties (put g r c v) = empties g - {(r, c)}" by (rule trans)
  then have "card (empties (put g r c v)) = card (empties g - {(r, c)})"
    by (rule arg_cong)
  then show ?thesis by linarith
qed

lemma first_empty_Some:
  "first_empty g ps = Inr (Some (r, c)) \<Longrightarrow> (r, c) \<in> set ps \<and> cell g r c = Inr 0"
  by (induction ps) (auto split: sum.splits if_splits)

lemma find_empty_cell_Some:
  "find_empty_cell g = Inr (Some (r, c)) \<Longrightarrow> (r, c) \<in> empties g"
  using first_empty_Some [of g all_cells r c]
  by (simp add: find_empty_cell_def empties_def)

lemma solve_failure_restores_partial:
  "solve_with_backtracking_try_numbers_dom (Inl g) \<Longrightarrow>
     (\<forall>g'. solve_with_backtracking g = Inr (False, g') \<longrightarrow> g' = g)"
  "solve_with_backtracking_try_numbers_dom (Inr (g, r, c, ns)) \<Longrightarrow>
     (\<forall>g'. try_numbers g r c ns = Inr (False, g') \<longrightarrow> g' = g \<or> g' = put g r c 0)"
proof (induction g and g r c ns rule: solve_with_backtracking_try_numbers.pinduct)
  case (1 board)
  show ?case
  proof (intro allI impI)
    fix g'
    assume res: "solve_with_backtracking board = Inr (False, g')"
    from res 1(1) obtain row col where
      e: "find_empty_cell board = Inr (Some (row, col))"
      and t: "try_numbers board row col [1..9] = Inr (False, g')"
      by (auto simp add: solve_with_backtracking.psimps split: sum.splits option.splits)
    from 1(2) [OF e refl refl] t have "g' = board \<or> g' = put board row col 0" by blast
    moreover from e have "cell board row col = Inr 0"
      by (auto simp add: find_empty_cell_def dest: first_empty_Some)
    ultimately show "g' = board" by (auto simp add: put_same)
  qed
next
  case (2 board row col)
  then show ?case by (simp add: try_numbers.psimps)
next
  case (3 board row col num nums)
  show ?case
  proof (intro allI impI)
    fix g'
    assume res: "try_numbers board row col (num # nums) = Inr (False, g')"
    show "g' = board \<or> g' = put board row col 0"
    proof (cases "is_valid_placement board row col num")
      case (Inl e)
      with res 3(1) show ?thesis by (simp add: try_numbers.psimps)
    next
      case (Inr ok)
      show ?thesis
      proof (cases ok)
        case False
        then have ok: "ok = False" by simp
        with Inr res 3(1) have "try_numbers board row col nums = Inr (False, g')"
          by (simp add: try_numbers.psimps)
        with 3(4) [OF Inr ok] show ?thesis by blast
      next
        case True
        then have ok: "ok = True" by simp
        from Inr True res 3(1) obtain b1 b2 b3 where
          s1: "set_cell board row col num = Inr b1"
          and rec: "solve_with_backtracking b1 = Inr (False, b2)"
          and s3: "set_cell b2 row col 0 = Inr b3"
          and t: "try_numbers b3 row col nums = Inr (False, g')"
          by (auto simp add: try_numbers.psimps split: sum.splits bool.splits)
        from 3(2) [OF Inr ok s1] rec have "b2 = b1" by blast
        with s1 s3 have b3: "b3 = put board row col 0"
          by (auto dest!: set_cell_Inr simp add: put_put)
        from 3(3) [OF Inr ok s1 rec refl refl s3] t
        have "g' = b3 \<or> g' = put b3 row col 0" by blast
        with b3 show ?thesis by (auto simp add: put_put)
      qed
    qed
  qed
qed

lemma solve_with_backtracking_total: "All solve_with_backtracking_try_numbers_dom"
proof (relation "measures
    [case_sum (\<lambda>g. card (empties g))
       (\<lambda>(g, r, c, ns). card (empties g - {(r, c)}) + (if 0 \<in> set ns then 1 else 0)),
     case_sum (\<lambda>g. 0) (\<lambda>x. 1),
     case_sum (\<lambda>g. 0) (\<lambda>(g, r, c, ns). length ns)]", goal_cases)
  case 1
  show ?case by simp
next
  case (2 board b x2 x y)
  then have "(x, y) \<in> empties board"
    by (auto dest: find_empty_cell_Some)
  then have "card (empties board - {(x, y)}) < card (empties board)"
    by (intro card_Diff1_less finite_empties)
  then show ?case by simp
next
  case (3 board row col num nums b ba)
  then have "ba = put board row col num" by (auto dest: set_cell_Inr)
  then show ?case
    using card_empties_put [of board row col num]
    by (cases "num = 0") (auto simp add: le_less)
next
  case (4 board row col num nums b ba bb x y bc)
  from 4(3) have ba: "ba = put board row col num" by (rule set_cell_Inr)
  from 4(4,5,6) have "solve_with_backtracking ba = Inr (False, y)" by simp
  with solve_failure_restores_partial(1) [OF 4(8)] have "y = ba" by blast
  with 4(7) ba have "bc = put board row col 0"
    by (auto dest!: set_cell_Inr simp add: put_put)
  then have "empties bc - {(row, col)} = empties board - {(row, col)}"
    by (simp only: empties_put_other)
  then show ?case by simp
next
  case (5 board row col num nums b)
  then show ?case by simp
qed

termination solve_with_backtracking
  by (rule solve_with_backtracking_total)

section \<open>SudokuPuzzleGenerator\<close>

text \<open>
  The generator has its own copies of the two helpers,
  \<open>SudokuPuzzleGenerator._find_empty_cell\<close> and \<open>SudokuPuzzleGenerator._is_valid\<close>.
\<close>

definition gen_find_empty_cell :: "grid \<Rightarrow> py_error + (nat \<times> nat) option" where
  "gen_find_empty_cell board = first_empty board all_cells"

definition gen_is_valid :: "grid \<Rightarrow> nat \<Rightarrow> nat \<Rightarrow> int \<Rightarrow> py_error + bool" where
  "gen_is_valid board row col num =
     (if \<not> row < length board then Inl IndexError
      else if num \<in> set (board ! row) then Inr False
      else case any_cell board num (column_cells col) of
             Inl e \<Rightarrow> Inl e
           | Inr True \<Rightarrow> Inr False
           | Inr False \<Rightarrow>
               (case any_cell board num (box_cells row col) of
                  Inl e \<Rightarrow> Inl e
                | Inr True \<Rightarrow> Inr False
                | Inr False \<Rightarrow> Inr True))"

text \<open>
  The random source is an explicit parameter.  \<open>random.shuffle(numbers)\<close> leaves some
  permutation of \<open>numbers\<close>: the \<open>k\<close>-th call of a run takes its permutation from
  \<open>rnd k\<close>, and a choice that is not a permutation of the list counts as the identity,
  so that every value of the parameter stands for a run of the program.
\<close>

definition shuffle :: "int list \<Rightarrow> int list \<Rightarrow> int list" where
  "shuffle choice numbers = (if sort choice = sort numbers then choice else numbers)"

text \<open>
  \<open>SudokuPuzzleGenerator._fill_board_randomly\<close>: the result carries the bool, the grid
  after the call and the number of shuffles drawn so far.
\<close>

function fill_board_randomly ::
    "(nat \<Rightarrow> int list) \<Rightarrow> grid \<Rightarrow> nat \<Rightarrow> py_error + (bool \<times> grid \<times> nat)"
  and fill_numbers ::
    "(nat \<Rightarrow> int list) \<Rightarrow> grid \<Rightarrow> nat \<Rightarrow> nat \<Rightarrow> nat \<Rightarrow> int list
       \<Rightarrow> py_error + (bool \<times> grid \<times> nat)"
where
  "fill_board_randomly rnd board k =
     (case gen_find_empty_cell board of
        Inl e \<Rightarrow> Inl e
      | Inr None \<Rightarrow> Inr (True, board, k)
      | Inr (Some (row, col)) \<Rightarrow>
          fill_numbers rnd board (Suc k) row col (shuffle (rnd k) [1..9]))"
| "fill_numbers rnd board k row col [] = Inr (False, board, k)"
| "fill_numbers rnd board k row col (num # numbers) =
     (case gen_is_valid board row col num of
        Inl e \<Rightarrow> Inl e
      | Inr False \<Rightarrow> fill_numbers rnd board k row col numbers
      | Inr True \<Rightarrow>
          (case set_cell board row col num of
             Inl e \<Rightarrow> Inl e
           | Inr board1 \<Rightarrow>
               (case fill_board_randomly rnd board1 k of
                  Inl e \<Rightarrow> Inl e
                | Inr (True, board2, k2) \<Rightarrow> Inr (True, board2, k2)
                | Inr (False, board2, k2) \<Rightarrow>
                    (case set_cell board2 row col 0 of
                       Inl e \<Rightarrow> Inl e
                     | Inr board3 \<Rightarrow> fill_numbers rnd board3 k2 row col numbers))))"
  by pat_completeness auto

lemma shuffle_nonzero: "0 \<notin> set (shuffle choice [1..9])"
proof -
  have "set (shuffle choice [1..9]) = set [1..9]"
    by (metis shuffle_def set_sort)
  then show ?thesis by simp
qed

lemma gen_find_empty_cell_Some:
  "gen_find_empty_cell g = Inr (Some (r, c)) \<Longrightarrow> (r, c) \<in> empties g"
  using first_empty_Some [of g all_cells r c]
  by (simp add: gen_find_empty_cell_def empties_def)

lemma fill_failure_restores_partial:
  "fill_board_randomly_fill_numbers_dom (Inl (rnd, g, k)) \<Longrightarrow>
     (\<forall>g' k'. fill_board_randomly rnd g k = Inr (False, g', k') \<longrightarrow> g' = g)"
  "fill_board_randomly_fill_numbers_dom (Inr (rnd, g, k, r, c, ns)) \<Longrightarrow>
     (\<forall>g' k'. fill_numbers rnd g k r c ns = Inr (False, g', k') \<longrightarrow>
        g' = g \<or> g' = put g r c 0)"
proof (induction rnd g k and rnd g k r c ns rule: fill_board_randomly_fill_numbers.pinduct)
  case (1 rnd board k)
  show ?case
  proof (intro allI impI)
    fix g' k'
    assume res: "fill_board_randomly rnd board k = Inr (False, g', k')"
    from res 1(1) obtain row col where
      e: "gen_find_empty_cell board = Inr (Some (row, col))"
      and t: "fill_numbers rnd board (Suc k) row col (shuffle (rnd k) [1..9]) = Inr (False, g', k')"
      by (auto simp add: fill_board_randomly.psimps split: sum.splits option.splits)
    from 1(2) [OF e refl refl] t have "g' = board \<or> g' = put board row col 0" by blast
    moreover from e have "cell board row col = Inr 0"
      by (auto simp add: gen_find_empty_cell_def dest: first_empty_Some)
    ultimately show "g' = board" by (auto simp add: put_same)
  qed
next
  case (2 rnd board k row col)
  then show ?case by (simp add: fill_numbers.psimps)
next
  case (3 rnd board k row col num numbers)
  show ?case
  proof (intro allI impI)
    fix g' k'
    assume res: "fill_numbers rnd board k row col (num # numbers) = Inr (False, g', k')"
    show "g' = board \<or> g' = put board row col 0"
    proof (cases "gen_is_valid board row col num")
      case (Inl e)
      with res 3(1) show ?thesis by (simp add: fill_numbers.psimps)
    next
      case (Inr ok)
      show ?thesis
      proof (cases ok)
        case False
        then have ok: "ok = False" by simp
        with Inr res 3(1) have "fill_numbers rnd board k row col numbers = Inr (False, g', k')"
          by (simp add: fill_numbers.psimps)
        with 3(4) [OF Inr ok] show ?thesis by blast
      next
        case True
        then have ok: "ok = True" by simp
        from Inr True res 3(1) obtain b1 b2 k2 b3 where
          s1: "set_cell board row col num = Inr b1"
          and rec: "fill_board_randomly rnd b1 k = Inr (False, b2, k2)"
          and s3: "set_cell b2 row col 0 = Inr b3"
          and t: "fill_numbers rnd b3 k2 row col numbers = Inr (False, g', k')"
          by (auto simp add: fill_numbers.psimps split: sum.splits bool.splits)
        from 3(2) [OF Inr ok s1] rec have "b2 = b1" by blast
        with s1 s3 have b3: "b3 = put board row col 0"
          by (auto dest!: set_cell_Inr simp add: put_put)
        from 3(3) [OF Inr ok s1 rec refl refl refl s3] t
        have "g' = b3 \<or> g' = put b3 row col 0" by blast
        with b3 show ?thesis by (auto simp add: put_put)
      qed
    qed
  qed
qed

lemma fill_board_randomly_total: "All fill_board_randomly_fill_numbers_dom"
proof (relation "measures
    [case_sum (\<lambda>(rnd, g, k). card (empties g))
       (\<lambda>(rnd, g, k, r, c, ns).
          card (empties g - {(r, c)}) + (if 0 \<in> set ns then 1 else 0)),
     case_sum (\<lambda>x. 0) (\<lambda>x. 1),
     case_sum (\<lambda>x. 0) (\<lambda>(rnd, g, k, r, c, ns). length ns)]", goal_cases)
  case 1
  show ?case by simp
next
  case (2 rnd board k b x2 x y)
  then have "(x, y) \<in> empties board"
    by (auto dest: gen_find_empty_cell_Some)
  then have "card (empties board - {(x, y)}) < card (empties board)"
    by (intro card_Diff1_less finite_empties)
  then show ?case by (simp add: shuffle_nonzero)
next
  case (3 rnd board k row col num numbers b ba)
  then have "ba = put board row col num" by (auto dest: set_cell_Inr)
  then show ?case
    using card_empties_put [of board row col num]
    by (cases "num = 0") (auto simp add: le_less)
next
  case (4 rnd board k row col num numbers b ba bb x y xa ya bc)
  from 4(3) have ba: "ba = put board row col num" by (rule set_cell_Inr)
  from 4(4,5,6,7) have "fill_board_randomly rnd ba k = Inr (False, xa, ya)" by simp
  with fill_failure_restores_partial(1) [OF 4(9)] have "xa = ba" by blast
  with 4(8) ba have "bc = put board row col 0"
    by (auto dest!: set_cell_Inr simp add: put_put)
  then have "empties bc - {(row, col)} = empties board - {(row, col)}"
    by (simp only: empties_put_other)
  then show ?case by simp
next
  case (5 rnd board k row col num numbers b)
  then show ?case by simp
qed

termination fill_board_randomly
  by (rule fill_board_randomly_total)

text \<open>A search that returns \<open>False\<close> has undone every placement it made.\<close>

lemma solve_failure_restores:
  "solve_with_backtracking g = Inr (False, g') \<Longrightarrow> g' = g"
  using solve_failure_restores_partial(1) [of g] solve_with_backtracking_total by blast

lemma fill_failure_restores:
  "fill_board_randomly rnd g k = Inr (False, g', k') \<Longrightarrow> g' = g"
  using fill_failure_restores_partial(1) [of rnd g k] fill_board_randomly_total by blast

text \<open>
  The removal loop of \<open>generate_puzzle\<close> draws a cell with \<open>random.randint\<close> until
  enough cells are cleared, and it may draw for ever.  The draws are the list
  \<open>picks\<close>; \<open>None\<close> says that the loop has not finished when the list is used up.
\<close>

fun remove_cells ::
  "grid \<Rightarrow> nat \<Rightarrow> nat \<Rightarrow> (nat \<times> nat) list \<Rightarrow> (py_error + grid) option" where
  "remove_cells board removed cells_to_remove [] =
     (if removed < cells_to_remove then None else Some (Inr board))"
| "remove_cells board removed cells_to_remove ((row, col) # picks) =
     (if removed < cells_to_remove then
        (case cell board row col of
           Inl e \<Rightarrow> Some (Inl e)
         | Inr v \<Rightarrow>
             if v \<noteq> 0 then
               (case set_cell board row col 0 of
                  Inl e \<Rightarrow> Some (Inl e)
                | Inr board1 \<Rightarrow> remove_cells board1 (removed + 1) cells_to_remove picks)
             else remove_cells board removed cells_to_remove picks)
      else Some (Inr board))"

section \<open>Grids whose rows may be one list object\<close>

text \<open>
  A Python list of lists holds references to its rows, and two entries of the outer list
  may be the same row object, as in \<open>[[0] * 9] * 9\<close>; \<open>copy.deepcopy\<close> keeps that
  sharing.  The assignment \<open>board[r][c] = v\<close> then shows in every row that is the object
  of row \<open>r\<close>.  A function that only reads a grid sees the values of the rows, and for it
  the grids above are enough.  For the functions that write, a grid is given here with
  its row objects: the list of the references of its rows, and the list that each
  reference holds.  Each grid has its own row objects; \<open>copy.deepcopy\<close> makes row
  objects that are shared as in the original, so the copy is the same pair.
\<close>

type_synonym obj_grid = "nat list \<times> (nat \<Rightarrow> int list)"

text \<open>The values that the reading functions see.\<close>

definition view :: "obj_grid \<Rightarrow> grid" where
  "view board = map (snd board) (fst board)"

text \<open>A grid given by its values, each row an object of its own.\<close>

definition fresh_rows :: "grid \<Rightarrow> obj_grid" where
  "fresh_rows g = ([0..<length g], \<lambda>a. if a < length g then g ! a else [])"

text \<open>The grid after the assignment \<open>board[r][c] = v\<close>, for \<open>(r, c)\<close> in range.\<close>

definition store_cell :: "obj_grid \<Rightarrow> nat \<Rightarrow> nat \<Rightarrow> int \<Rightarrow> obj_grid" where
  "store_cell board r c v =
     (fst board, (snd board)(fst board ! r := (snd board (fst board ! r))[c := v]))"

definition set_cell_obj :: "obj_grid \<Rightarrow> nat \<Rightarrow> nat \<Rightarrow> int \<Rightarrow> py_error + obj_grid" where
  "set_cell_obj board r c v =
     (if r < length (fst board) \<and> c < length (snd board (fst board ! r))
      then Inr (store_cell board r c v)
      else Inl IndexError)"

text \<open>
  \<open>SudokuBoard._solve_with_backtracking\<close> on a grid with its row objects: the reads go
  through \<open>view\<close>, the two assignments through \<open>set_cell_obj\<close>.
\<close>

function solve_with_backtracking_obj :: "obj_grid \<Rightarrow> py_error + (bool \<times> obj_grid)"
  and try_numbers_obj ::
    "obj_grid \<Rightarrow> nat \<Rightarrow> nat \<Rightarrow> int list \<Rightarrow> py_error + (bool \<times> obj_grid)"
where
  "solve_with_backtracking_obj board =
     (case find_empty_cell (view board) of
        Inl e \<Rightarrow> Inl e
      | Inr None \<Rightarrow> Inr (True, board)
      | Inr (Some (row, col)) \<Rightarrow> try_numbers_obj board row col [1..9])"
| "try_numbers_obj board row col [] = Inr (False, board)"
| "try_numbers_obj board row col (num # nums) =
     (case is_valid_placement (view board) row col num of
        Inl e \<Rightarrow> Inl e
      | Inr False \<Rightarrow> try_numbers_obj board row col nums
      | Inr True \<Rightarrow>
          (case set_cell_obj board row col num of
             Inl e \<Rightarrow> Inl e
           | Inr board1 \<Rightarrow>
               (case solve_with_backtracking_obj board1 of
                  Inl e \<Rightarrow> Inl e
                | Inr (True, board2) \<Rightarrow> Inr (True, board2)
                | Inr (False, board2) \<Rightarrow>
                    (case set_cell_obj board2 row col 0 of
                       Inl e \<Rightarrow> Inl e
                     | Inr board3 \<Rightarrow> try_numbers_obj board3 row col nums))))"
  by pat_completeness auto

subsection \<open>Termination of the search on shared rows\<close>

text \<open>
  The cells that the assignment \<open>board[r][c] = v\<close> changes: column \<open>c\<close> of every row
  that is the object of row \<open>r\<close>.  The search still ends: a placement fills all of them.
\<close>

definition aliases :: "obj_grid \<Rightarrow> nat \<Rightarrow> nat \<Rightarrow> (nat \<times> nat) set" where
  "aliases h r c = {p. fst p < length (fst h) \<and> fst h ! fst p = fst h ! r \<and> snd p = c}"

lemma length_view: "length (view h) = length (fst h)"
  by (simp add: view_def)

lemma view_nth: "i < length (fst h) \<Longrightarrow> view h ! i = snd h (fst h ! i)"
  by (simp add: view_def)

lemma cell_view:
  "cell (view h) r c =
     (if r < length (fst h) \<and> c < length (snd h (fst h ! r))
      then Inr (snd h (fst h ! r) ! c) else Inl IndexError)"
  by (cases "r < length (fst h)") (simp_all add: cell_def view_def)

lemma fst_store_cell: "fst (store_cell h r c v) = fst h"
  by (simp add: store_cell_def)

lemma snd_store_cell:
  "snd (store_cell h r c v) a = (if a = fst h ! r then (snd h a)[c := v] else snd h a)"
  by (simp add: store_cell_def)

lemma aliases_store_cell: "aliases (store_cell h r c v) r' c' = aliases h r' c'"
  by (simp add: aliases_def fst_store_cell)

lemma store_cell_twice: "store_cell (store_cell h r c a) r c b = store_cell h r c b"
  by (simp add: store_cell_def)

lemma store_cell_same:
  assumes "cell (view h) r c = Inr v"
  shows "store_cell h r c v = h"
proof -
  from assms have "snd h (fst h ! r) ! c = v"
    by (simp add: cell_view split: if_splits)
  then have "(snd h (fst h ! r))[c := v] = snd h (fst h ! r)"
    by (metis list_update_id)
  then have "(snd h)(fst h ! r := (snd h (fst h ! r))[c := v]) = snd h"
    by (simp only: fun_upd_triv)
  then show ?thesis
    by (simp add: store_cell_def)
qed

lemma set_cell_obj_Inr:
  "set_cell_obj h r c v = Inr h' \<Longrightarrow> h' = store_cell h r c v"
  by (auto simp add: set_cell_obj_def split: if_splits)

lemma cell_store_other:
  assumes "(r', c') \<notin> aliases h r c"
  shows "cell (view (store_cell h r c v)) r' c' = cell (view h) r' c'"
proof (cases "r' < length (fst h)")
  case False
  then show ?thesis
    by (simp add: cell_view fst_store_cell)
next
  case True
  show ?thesis
  proof (cases "fst h ! r' = fst h ! r")
    case False
    then show ?thesis
      by (simp add: cell_view fst_store_cell snd_store_cell)
  next
    case same: True
    with True assms have "c' \<noteq> c"
      by (simp add: aliases_def)
    with same show ?thesis
      by (simp add: cell_view fst_store_cell snd_store_cell)
  qed
qed

lemma cell_store_alias:
  assumes "(r', c') \<in> aliases h r c"
  shows "cell (view (store_cell h r c v)) r' c' \<noteq> Inr 0 \<or> v = 0"
proof -
  from assms have "r' < length (fst h)" "fst h ! r' = fst h ! r" "c' = c"
    by (simp_all add: aliases_def)
  then show ?thesis
    by (simp add: cell_view fst_store_cell snd_store_cell)
qed

lemma empties_store_other:
  "empties (view (store_cell h r c v)) - aliases h r c = empties (view h) - aliases h r c"
proof (intro set_eqI iffI)
  fix p
  assume p: "p \<in> empties (view (store_cell h r c v)) - aliases h r c"
  obtain a b where ab: "p = (a, b)" by (cases p)
  from p ab have "(a, b) \<notin> aliases h r c" by simp
  then have "cell (view (store_cell h r c v)) a b = cell (view h) a b"
    by (rule cell_store_other)
  with p ab show "p \<in> empties (view h) - aliases h r c" by (simp add: empties_def)
next
  fix p
  assume p: "p \<in> empties (view h) - aliases h r c"
  obtain a b where ab: "p = (a, b)" by (cases p)
  from p ab have "(a, b) \<notin> aliases h r c" by simp
  then have "cell (view (store_cell h r c v)) a b = cell (view h) a b"
    by (rule cell_store_other)
  with p ab show "p \<in> empties (view (store_cell h r c v)) - aliases h r c"
    by (simp add: empties_def)
qed

lemma length_all_cells: "length all_cells = 81"
  by (simp add: all_cells_def length_concat comp_def sum_list_triv)

lemma card_empties_le: "card (empties g) \<le> 81"
proof -
  have "empties g \<subseteq> set all_cells"
    by (auto simp add: empties_def)
  then have "card (empties g) \<le> card (set all_cells)"
    by (intro card_mono) simp_all
  also have "\<dots> \<le> length all_cells"
    by (rule card_length)
  finally show ?thesis
    by (simp only: length_all_cells)
qed

lemma card_empties_store:
  "card (empties (view (store_cell h r c v)))
     \<le> card (empties (view h) - aliases h r c) + (if v = 0 then 81 else 0)"
proof (cases "v = 0")
  case True
  then show ?thesis
    using card_empties_le [of "view (store_cell h r c v)"] by simp
next
  case False
  have "empties (view (store_cell h r c v)) \<inter> aliases h r c = {}"
  proof (rule ccontr)
    assume "empties (view (store_cell h r c v)) \<inter> aliases h r c \<noteq> {}"
    then obtain p where p: "p \<in> empties (view (store_cell h r c v))" "p \<in> aliases h r c"
      by blast
    obtain a b where ab: "p = (a, b)" by (cases p)
    from p(1) ab have "cell (view (store_cell h r c v)) a b = Inr 0"
      by (simp add: empties_def)
    moreover from p(2) ab have "(a, b) \<in> aliases h r c" by simp
    ultimately show False
      using cell_store_alias [of a b h r c v] False by blast
  qed
  then have "empties (view (store_cell h r c v)) - aliases h r c
             = empties (view (store_cell h r c v))"
    by blast
  from this [symmetric] empties_store_other [of h r c v]
  have "empties (view (store_cell h r c v)) = empties (view h) - aliases h r c"
    by (rule trans)
  then have "card (empties (view (store_cell h r c v)))
             = card (empties (view h) - aliases h r c)"
    by (rule arg_cong)
  with False show ?thesis by simp
qed

lemma find_empty_cell_alias:
  assumes "find_empty_cell (view h) = Inr (Some (r, c))"
  shows "(r, c) \<in> empties (view h) \<inter> aliases h r c"
proof -
  from assms have e: "(r, c) \<in> empties (view h)"
    by (rule find_empty_cell_Some)
  then have "cell (view h) r c = Inr 0"
    by (simp add: empties_def)
  then have "r < length (fst h)"
    by (simp add: cell_view split: if_splits)
  then have "(r, c) \<in> aliases h r c"
    by (simp add: aliases_def)
  with e show ?thesis by simp
qed

lemma solve_obj_failure_restores_partial:
  "solve_with_backtracking_obj_try_numbers_obj_dom (Inl h) \<Longrightarrow>
     (\<forall>h'. solve_with_backtracking_obj h = Inr (False, h') \<longrightarrow> h' = h)"
  "solve_with_backtracking_obj_try_numbers_obj_dom (Inr (h, r, c, ns)) \<Longrightarrow>
     (\<forall>h'. try_numbers_obj h r c ns = Inr (False, h') \<longrightarrow> h' = h \<or> h' = store_cell h r c 0)"
proof (induction h and h r c ns rule: solve_with_backtracking_obj_try_numbers_obj.pinduct)
  case (1 board)
  show ?case
  proof (intro allI impI)
    fix h'
    assume res: "solve_with_backtracking_obj board = Inr (False, h')"
    from res 1(1) obtain row col where
      e: "find_empty_cell (view board) = Inr (Some (row, col))"
      and t: "try_numbers_obj board row col [1..9] = Inr (False, h')"
      by (auto simp add: solve_with_backtracking_obj.psimps split: sum.splits option.splits)
    from 1(2) [OF e refl refl] t have "h' = board \<or> h' = store_cell board row col 0" by blast
    moreover from e have "cell (view board) row col = Inr 0"
      by (auto simp add: find_empty_cell_def dest: first_empty_Some)
    ultimately show "h' = board" by (auto simp add: store_cell_same)
  qed
next
  case (2 board row col)
  then show ?case by (simp add: try_numbers_obj.psimps)
next
  case (3 board row col num nums)
  show ?case
  proof (intro allI impI)
    fix h'
    assume res: "try_numbers_obj board row col (num # nums) = Inr (False, h')"
    show "h' = board \<or> h' = store_cell board row col 0"
    proof (cases "is_valid_placement (view board) row col num")
      case (Inl e)
      with res 3(1) show ?thesis by (simp add: try_numbers_obj.psimps)
    next
      case (Inr ok)
      show ?thesis
      proof (cases ok)
        case False
        then have ok: "ok = False" by simp
        with Inr res 3(1) have "try_numbers_obj board row col nums = Inr (False, h')"
          by (simp add: try_numbers_obj.psimps)
        with 3(4) [OF Inr ok] show ?thesis by blast
      next
        case True
        then have ok: "ok = True" by simp
        from Inr True res 3(1) obtain b1 b2 b3 where
          s1: "set_cell_obj board row col num = Inr b1"
          and rec: "solve_with_backtracking_obj b1 = Inr (False, b2)"
          and s3: "set_cell_obj b2 row col 0 = Inr b3"
          and t: "try_numbers_obj b3 row col nums = Inr (False, h')"
          by (auto simp add: try_numbers_obj.psimps split: sum.splits bool.splits)
        from 3(2) [OF Inr ok s1] rec have "b2 = b1" by blast
        with s1 s3 have b3: "b3 = store_cell board row col 0"
          by (auto dest!: set_cell_obj_Inr simp add: store_cell_twice)
        from 3(3) [OF Inr ok s1 rec refl refl s3] t
        have "h' = b3 \<or> h' = store_cell b3 row col 0" by blast
        with b3 show ?thesis by (auto simp add: store_cell_twice)
      qed
    qed
  qed
qed

lemma solve_with_backtracking_obj_total: "All solve_with_backtracking_obj_try_numbers_obj_dom"
proof (relation "measures
    [case_sum (\<lambda>h. card (empties (view h)))
       (\<lambda>(h, r, c, ns). card (empties (view h) - aliases h r c)
                         + (if 0 \<in> set ns then 81 else 0)),
     case_sum (\<lambda>h. 0) (\<lambda>x. 1),
     case_sum (\<lambda>h. 0) (\<lambda>(h, r, c, ns). length ns)]", goal_cases)
  case 1
  show ?case by simp
next
  case (2 board b x2 x y)
  then have "find_empty_cell (view board) = Inr (Some (x, y))" by simp
  then have "(x, y) \<in> empties (view board) \<inter> aliases board x y"
    by (rule find_empty_cell_alias)
  then have "empties (view board) - aliases board x y \<subset> empties (view board)"
    by blast
  then have "card (empties (view board) - aliases board x y) < card (empties (view board))"
    by (intro psubset_card_mono finite_empties)
  then show ?case by simp
next
  case (3 board row col num nums b ba)
  then have "ba = store_cell board row col num" by (auto dest: set_cell_obj_Inr)
  then show ?case
    using card_empties_store [of board row col num]
    by (cases "num = 0") (auto simp add: le_less)
next
  case (4 board row col num nums b ba bb x y bc)
  from 4(3) have ba: "ba = store_cell board row col num" by (rule set_cell_obj_Inr)
  from 4(4,5,6) have "solve_with_backtracking_obj ba = Inr (False, y)" by simp
  with solve_obj_failure_restores_partial(1) [OF 4(8)] have "y = ba" by blast
  with 4(7) ba have bc: "bc = store_cell board row col 0"
    by (auto dest!: set_cell_obj_Inr simp add: store_cell_twice)
  then have "empties (view bc) - aliases board row col
             = empties (view board) - aliases board row col"
    by (simp only: empties_store_other)
  moreover from bc have "aliases bc row col = aliases board row col"
    by (simp only: aliases_store_cell)
  ultimately show ?case by simp
next
  case (5 board row col num nums b)
  then show ?case by simp
qed

termination solve_with_backtracking_obj
  by (rule solve_with_backtracking_obj_total)

lemma solve_obj_failure_restores:
  "solve_with_backtracking_obj h = Inr (False, h') \<Longrightarrow> h' = h"
  using solve_obj_failure_restores_partial(1) [of h] solve_with_backtracking_obj_total by blast

section \<open>The board object\<close>

record Board =
  board :: grid
  initial_board :: grid
  solution :: "grid option"

text \<open>
  \<open>SudokuBoard._generate_solution\<close>: the search runs on a copy of \<open>self.board\<close>,
  and the copy is stored only when the search succeeds.
\<close>

definition generate_solution :: "Board \<Rightarrow> py_error + (bool \<times> Board)" where
  "generate_solution b =
     (case solve_with_backtracking (board b) of
        Inl e \<Rightarrow> Inl e
      | Inr (True, board_copy) \<Rightarrow> Inr (True, b\<lparr>solution := Some board_copy\<rparr>)
      | Inr (False, board_copy) \<Rightarrow> Inr (False, b))"

text \<open>
  \<open>SudokuBoard.__init__\<close>: no check of the argument; the only way to fail is an
  \<open>IndexError\<close> raised inside the search.
\<close>

definition SudokuBoard_init :: "grid option \<Rightarrow> py_error + Board" where
  "SudokuBoard_init arg =
     (let g = (case arg of None \<Rightarrow> empty_grid | Some g \<Rightarrow> g)
      in case generate_solution \<lparr>board = g, initial_board = g, solution = None\<rparr> of
           Inl e \<Rightarrow> Inl e
         | Inr (found, b) \<Rightarrow> Inr b)"

text \<open>
  \<open>SudokuBoard.get_possibilities\<close>: each of the three loops discards the non-zero
  values it reads from the set.
\<close>

fun discard_cells :: "grid \<Rightarrow> (nat \<times> nat) list \<Rightarrow> int set \<Rightarrow> py_error + int set" where
  "discard_cells g [] possibilities = Inr possibilities"
| "discard_cells g ((r, c) # ps) possibilities =
     (case cell g r c of
        Inl e \<Rightarrow> Inl e
      | Inr v \<Rightarrow> discard_cells g ps (if v \<noteq> 0 then possibilities - {v} else possibilities))"

definition get_possibilities :: "Board \<Rightarrow> nat \<Rightarrow> nat \<Rightarrow> py_error + int set" where
  "get_possibilities b row col =
     (case cell (board b) row col of
        Inl e \<Rightarrow> Inl e
      | Inr v \<Rightarrow>
          if v \<noteq> 0 then Inr {}
          else
            (case discard_cells (board b) (row_cells row) (set [1..9]) of
               Inl e \<Rightarrow> Inl e
             | Inr p1 \<Rightarrow>
                 (case discard_cells (board b) (column_cells col) p1 of
                    Inl e \<Rightarrow> Inl e
                  | Inr p2 \<Rightarrow> discard_cells (board b) (box_cells row col) p2)))"

text \<open>
  \<open>SudokuBoard.get_all_possibilities\<close>: a Python dict keeps its keys in the order
  they were first stored, which \<open>find_naked_singles\<close> relies on; the model is an
  association list, and \<open>AList.update\<close> is the assignment \<open>d[key] = value\<close>.
\<close>

fun collect_possibilities ::
  "Board \<Rightarrow> (nat \<times> nat) list \<Rightarrow> ((nat \<times> nat) \<times> int set) list
     \<Rightarrow> py_error + ((nat \<times> nat) \<times> int set) list" where
  "collect_possibilities b [] possibilities = Inr possibilities"
| "collect_possibilities b ((row, col) # ps) possibilities =
     (case cell (board b) row col of
        Inl e \<Rightarrow> Inl e
      | Inr v \<Rightarrow>
          if v = 0 then
            (case get_possibilities b row col of
               Inl e \<Rightarrow> Inl e
             | Inr poss \<Rightarrow>
                 collect_possibilities b ps
                   (if poss \<noteq> {} then AList.update (row, col) poss possibilities
                    else possibilities))
          else collect_possibilities b ps possibilities)"

definition get_all_possibilities ::
  "Board \<Rightarrow> py_error + ((nat \<times> nat) \<times> int set) list" where
  "get_all_possibilities b = collect_possibilities b all_cells []"

text \<open>
  \<open>SudokuBoard.place_number\<close>: the method mutates \<open>self.board\<close> and returns a bool;
  the model returns the bool and the board after the call.
\<close>

definition place_number :: "Board \<Rightarrow> nat \<Rightarrow> nat \<Rightarrow> int \<Rightarrow> py_error + (bool \<times> Board)" where
  "place_number b row col num =
     (if num = 0 then
        (case set_cell (board b) row col 0 of
           Inl e \<Rightarrow> Inl e
         | Inr g \<Rightarrow> Inr (True, b\<lparr>board := g\<rparr>))
      else
        (case is_valid_placement (board b) row col num of
           Inl e \<Rightarrow> Inl e
         | Inr False \<Rightarrow> Inr (False, b)
         | Inr True \<Rightarrow>
             (case set_cell (board b) row col num of
                Inl e \<Rightarrow> Inl e
              | Inr g \<Rightarrow> Inr (True, b\<lparr>board := g\<rparr>))))"

text \<open>\<open>SudokuBoard.is_complete\<close>\<close>

definition is_complete :: "Board \<Rightarrow> bool" where
  "is_complete b \<longleftrightarrow> list_all (\<lambda>row. 0 \<notin> set row) (board b)"

text \<open>
  \<open>SudokuBoard.is_valid_complete\<close>: the rows are checked as they are, the columns and
  the boxes are read cell by cell into a list first.
\<close>

fun read_cells :: "grid \<Rightarrow> (nat \<times> nat) list \<Rightarrow> py_error + int list" where
  "read_cells g [] = Inr []"
| "read_cells g ((r, c) # ps) =
     (case cell g r c of
        Inl e \<Rightarrow> Inl e
      | Inr v \<Rightarrow> (case read_cells g ps of Inl e \<Rightarrow> Inl e | Inr vs \<Rightarrow> Inr (v # vs)))"

fun all_nine :: "grid \<Rightarrow> (nat \<times> nat) list list \<Rightarrow> py_error + bool" where
  "all_nine g [] = Inr True"
| "all_nine g (u # us) =
     (case read_cells g u of
        Inl e \<Rightarrow> Inl e
      | Inr vs \<Rightarrow> if card (set vs) \<noteq> 9 then Inr False else all_nine g us)"

definition is_valid_complete :: "Board \<Rightarrow> py_error + bool" where
  "is_valid_complete b =
     (if \<not> is_complete b then Inr False
      else if list_ex (\<lambda>row. card (set row) \<noteq> 9 \<or> 0 \<in> set row) (board b) then Inr False
      else case all_nine (board b) (map column_cells [0..<9]) of
             Inl e \<Rightarrow> Inl e
           | Inr False \<Rightarrow> Inr False
           | Inr True \<Rightarrow>
               all_nine (board b)
                 (concat (map (\<lambda>box_row. map (\<lambda>box_col. block_cells box_row box_col) [0, 3, 6])
                    [0, 3, 6])))"

section \<open>Puzzle generation\<close>

definition difficulty_map :: "string \<rightharpoonup> nat" where
  "difficulty_map =
     [''Easy'' \<mapsto> 30, ''Medium'' \<mapsto> 40, ''Hard'' \<mapsto> 50, ''Expert'' \<mapsto> 60]"

text \<open>
  \<open>SudokuPuzzleGenerator.generate_puzzle\<close>; the bool that \<open>_fill_board_randomly\<close>
  returns is not looked at.
\<close>

definition generate_puzzle ::
  "(nat \<Rightarrow> int list) \<Rightarrow> (nat \<times> nat) list \<Rightarrow> string \<Rightarrow> (py_error + Board) option" where
  "generate_puzzle rnd picks difficulty =
     (case fill_board_randomly rnd empty_grid 0 of
        Inl e \<Rightarrow> Some (Inl e)
      | Inr (filled, board1, k) \<Rightarrow>
          (let cells_to_remove =
                 (case difficulty_map difficulty of Some n \<Rightarrow> n | None \<Rightarrow> 40)
           in case remove_cells board1 0 cells_to_remove picks of
                None \<Rightarrow> None
              | Some (Inl e) \<Rightarrow> Some (Inl e)
              | Some (Inr board2) \<Rightarrow> Some (SudokuBoard_init (Some board2))))"

text \<open>The number of empty cells, as \<open>get_difficulty_level\<close> counts them.\<close>

definition empty_count :: "grid \<Rightarrow> nat" where
  "empty_count g = length (filter (\<lambda>v. v = 0) (concat g))"

section \<open>AdvancedSudokuAISolver\<close>

text \<open>
  The solver object holds a board and reads it; the model passes the board.
  \<open>find_naked_singles\<close> walks the dict of \<open>get_all_possibilities\<close> in its order;
  \<open>list(poss_set)[0]\<close> is taken of sets with one element only, where it is that
  element.
\<close>

fun naked_singles_of :: "((nat \<times> nat) \<times> int set) list \<Rightarrow> (nat \<times> nat \<times> int) list" where
  "naked_singles_of [] = []"
| "naked_singles_of (((row, col), poss_set) # items) =
     (if card poss_set = 1 then (row, col, the_elem poss_set) # naked_singles_of items
      else naked_singles_of items)"

definition find_naked_singles :: "Board \<Rightarrow> py_error + (nat \<times> nat \<times> int) list" where
  "find_naked_singles b =
     (case get_all_possibilities b of
        Inl e \<Rightarrow> Inl e
      | Inr possibilities \<Rightarrow> Inr (naked_singles_of possibilities))"

text \<open>
  \<open>find_hidden_singles_in_row\<close>: the inner loop collects the columns of the row
  where \<open>num\<close> is possible, the outer loop runs over the digits.
\<close>

fun row_positions :: "Board \<Rightarrow> nat \<Rightarrow> int \<Rightarrow> nat list \<Rightarrow> py_error + nat list" where
  "row_positions b row num [] = Inr []"
| "row_positions b row num (col # cols) =
     (case cell (board b) row col of
        Inl e \<Rightarrow> Inl e
      | Inr v \<Rightarrow>
          if v = 0 then
            (case get_possibilities b row col of
               Inl e \<Rightarrow> Inl e
             | Inr possibilities \<Rightarrow>
                 (case row_positions b row num cols of
                    Inl e \<Rightarrow> Inl e
                  | Inr possible_positions \<Rightarrow>
                      Inr (if num \<in> possibilities then col # possible_positions
                           else possible_positions)))
          else row_positions b row num cols)"

fun hidden_singles_in_row ::
  "Board \<Rightarrow> nat \<Rightarrow> int list \<Rightarrow> py_error + (nat \<times> nat \<times> int) list" where
  "hidden_singles_in_row b row [] = Inr []"
| "hidden_singles_in_row b row (num # nums) =
     (if \<not> row < length (board b) then Inl IndexError
      else if num \<in> set (board b ! row) then hidden_singles_in_row b row nums
      else
        (case row_positions b row num [0..<9] of
           Inl e \<Rightarrow> Inl e
         | Inr possible_positions \<Rightarrow>
             (case hidden_singles_in_row b row nums of
                Inl e \<Rightarrow> Inl e
              | Inr hidden_singles \<Rightarrow>
                  Inr (if length possible_positions = 1
                       then (row, possible_positions ! 0, num) # hidden_singles
                       else hidden_singles))))"

definition find_hidden_singles_in_row ::
  "Board \<Rightarrow> nat \<Rightarrow> py_error + (nat \<times> nat \<times> int) list" where
  "find_hidden_singles_in_row b row = hidden_singles_in_row b row [1..9]"

text \<open>\<open>find_hidden_singles_in_column\<close>, the same along a column.\<close>

fun column_positions :: "Board \<Rightarrow> nat \<Rightarrow> int \<Rightarrow> nat list \<Rightarrow> py_error + nat list" where
  "column_positions b col num [] = Inr []"
| "column_positions b col num (row # rows) =
     (case cell (board b) row col of
        Inl e \<Rightarrow> Inl e
      | Inr v \<Rightarrow>
          if v = 0 then
            (case get_possibilities b row col of
               Inl e \<Rightarrow> Inl e
             | Inr possibilities \<Rightarrow>
                 (case column_positions b col num rows of
                    Inl e \<Rightarrow> Inl e
                  | Inr possible_positions \<Rightarrow>
                      Inr (if num \<in> possibilities then row # possible_positions
                           else possible_positions)))
          else column_positions b col num rows)"

fun hidden_singles_in_column ::
  "Board \<Rightarrow> nat \<Rightarrow> int list \<Rightarrow> py_error + (nat \<times> nat \<times> int) list" where
  "hidden_singles_in_column b col [] = Inr []"
| "hidden_singles_in_column b col (num # nums) =
     (case any_cell (board b) num (column_cells col) of
        Inl e \<Rightarrow> Inl e
      | Inr True \<Rightarrow> hidden_singles_in_column b col nums
      | Inr False \<Rightarrow>
          (case column_positions b col num [0..<9] of
             Inl e \<Rightarrow> Inl e
           | Inr possible_positions \<Rightarrow>
               (case hidden_singles_in_column b col nums of
                  Inl e \<Rightarrow> Inl e
                | Inr hidden_singles \<Rightarrow>
                    Inr (if length possible_positions = 1
                         then (possible_positions ! 0, col, num) # hidden_singles
                         else hidden_singles))))"

definition find_hidden_singles_in_column ::
  "Board \<Rightarrow> nat \<Rightarrow> py_error + (nat \<times> nat \<times> int) list" where
  "find_hidden_singles_in_column b col = hidden_singles_in_column b col [1..9]"

text \<open>
  \<open>get_advanced_hint\<close> returns a sentence built from a deduction; the model keeps
  the deduction and renders it with \<open>hint_text\<close>, as the f-strings of the source do.
\<close>

datatype deduction =
  NakedSingle nat nat int
| HiddenSingleRow nat nat int
| HiddenSingleColumn nat nat int

definition digit_char :: "nat \<Rightarrow> char" where
  "digit_char n = ''0123456789'' ! (n mod 10)"

function str_nat :: "nat \<Rightarrow> string" where
  "str_nat n = (if n < 10 then [digit_char n] else str_nat (n div 10) @ [digit_char n])"
  by pat_completeness auto
termination
  by (relation "measure (\<lambda>n. n)") auto

definition str_int :: "int \<Rightarrow> string" where
  "str_int i = (if i < 0 then CHR ''-'' # str_nat (nat (- i)) else str_nat (nat i))"

fun hint_text :: "deduction \<Rightarrow> string" where
  "hint_text (NakedSingle row col num) =
     ''Naked Single: Cell ('' @ str_nat (row + 1) @ '', '' @ str_nat (col + 1)
       @ '') MUST be '' @ str_int num @ '' (only possibility)''"
| "hint_text (HiddenSingleRow row_idx col_idx num) =
     ''Hidden Single in Row '' @ str_nat (row_idx + 1) @ '': Number '' @ str_int num
       @ '' can only go at ('' @ str_nat (row_idx + 1) @ '', '' @ str_nat (col_idx + 1) @ '')''"
| "hint_text (HiddenSingleColumn row_idx col_idx num) =
     ''Hidden Single in Column '' @ str_nat (col_idx + 1) @ '': Number '' @ str_int num
       @ '' can only go at ('' @ str_nat (row_idx + 1) @ '', '' @ str_nat (col_idx + 1) @ '')''"

fun first_row_deduction :: "Board \<Rightarrow> nat list \<Rightarrow> py_error + deduction option" where
  "first_row_deduction b [] = Inr None"
| "first_row_deduction b (row # rows) =
     (case find_hidden_singles_in_row b row of
        Inl e \<Rightarrow> Inl e
      | Inr [] \<Rightarrow> first_row_deduction b rows
      | Inr ((row_idx, col_idx, num) # others) \<Rightarrow>
          Inr (Some (HiddenSingleRow row_idx col_idx num)))"

fun first_column_deduction :: "Board \<Rightarrow> nat list \<Rightarrow> py_error + deduction option" where
  "first_column_deduction b [] = Inr None"
| "first_column_deduction b (col # cols) =
     (case find_hidden_singles_in_column b col of
        Inl e \<Rightarrow> Inl e
      | Inr [] \<Rightarrow> first_column_deduction b cols
      | Inr ((row_idx, col_idx, num) # others) \<Rightarrow>
          Inr (Some (HiddenSingleColumn row_idx col_idx num)))"

definition advanced_deduction :: "Board \<Rightarrow> py_error + deduction option" where
  "advanced_deduction b =
     (case find_naked_singles b of
        Inl e \<Rightarrow> Inl e
      | Inr ((row, col, num) # others) \<Rightarrow> Inr (Some (NakedSingle row col num))
      | Inr [] \<Rightarrow>
          (case first_row_deduction b [0..<9] of
             Inl e \<Rightarrow> Inl e
           | Inr (Some d) \<Rightarrow> Inr (Some d)
           | Inr None \<Rightarrow> first_column_deduction b [0..<9]))"

definition get_advanced_hint :: "Board \<Rightarrow> py_error + string option" where
  "get_advanced_hint b =
     (case advanced_deduction b of
        Inl e \<Rightarrow> Inl e
      | Inr d \<Rightarrow> Inr (map_option hint_text d))"

section \<open>The board object with its row objects\<close>

text \<open>
  The three grids of a \<open>SudokuBoard\<close> with their row objects.  \<open>__init__\<close> and
  \<open>_generate_solution\<close> copy with \<open>copy.deepcopy\<close>, which leaves rows that were one
  object one object in the copy.
\<close>

record Board_obj =
  board_obj :: obj_grid
  initial_board_obj :: obj_grid
  solution_obj :: "obj_grid option"

text \<open>\<open>SudokuBoard._generate_solution\<close>\<close>

definition generate_solution_obj :: "Board_obj \<Rightarrow> py_error + (bool \<times> Board_obj)" where
  "generate_solution_obj b =
     (case solve_with_backtracking_obj (board_obj b) of
        Inl e \<Rightarrow> Inl e
      | Inr (True, board_copy) \<Rightarrow> Inr (True, b\<lparr>solution_obj := Some board_copy\<rparr>)
      | Inr (False, board_copy) \<Rightarrow> Inr (False, b))"

text \<open>\<open>SudokuBoard.__init__\<close>; without an argument the rows are nine new lists.\<close>

definition SudokuBoard_init_obj :: "obj_grid option \<Rightarrow> py_error + Board_obj" where
  "SudokuBoard_init_obj arg =
     (let g = (case arg of None \<Rightarrow> fresh_rows empty_grid | Some g \<Rightarrow> g)
      in case generate_solution_obj \<lparr>board_obj = g, initial_board_obj = g, solution_obj = None\<rparr> of
           Inl e \<Rightarrow> Inl e
         | Inr (found, b) \<Rightarrow> Inr b)"

text \<open>\<open>SudokuBoard.place_number\<close>\<close>

definition place_number_obj ::
  "Board_obj \<Rightarrow> nat \<Rightarrow> nat \<Rightarrow> int \<Rightarrow> py_error + (bool \<times> Board_obj)" where
  "place_number_obj b row col num =
     (if num = 0 then
        (case set_cell_obj (board_obj b) row col 0 of
           Inl e \<Rightarrow> Inl e
         | Inr g \<Rightarrow> Inr (True, b\<lparr>board_obj := g\<rparr>))
      else
        (case is_valid_placement (view (board_obj b)) row col num of
           Inl e \<Rightarrow> Inl e
         | Inr False \<Rightarrow> Inr (False, b)
         | Inr True \<Rightarrow>
             (case set_cell_obj (board_obj b) row col num of
                Inl e \<Rightarrow> Inl e
              | Inr g \<Rightarrow> Inr (True, b\<lparr>board_obj := g\<rparr>))))"

section \<open>Properties of grids\<close>

text \<open>The shape the data model asks for: nine rows of nine cells.\<close>

definition grid9x9 :: "grid \<Rightarrow> bool" where
  "grid9x9 g \<longleftrightarrow> length g = 9 \<and> list_all (\<lambda>row. length row = 9) g"

text \<open>Some cell of the row, the column or the box of \<open>(row, col)\<close> holds \<open>v\<close>
  (the cell \<open>(row, col)\<close> itself included).\<close>

definition val :: "grid \<Rightarrow> nat \<times> nat \<Rightarrow> int" where
  "val g p = g ! fst p ! snd p"

definition unit_holds :: "grid \<Rightarrow> nat \<Rightarrow> nat \<Rightarrow> int \<Rightarrow> bool" where
  "unit_holds g row col v \<longleftrightarrow>
     list_ex (\<lambda>p. val g p = v) (row_cells row @ column_cells col @ box_cells row col)"

text \<open>Some \<^emph>\<open>other\<close> cell of the row, the column or the box holds \<open>v\<close>.\<close>

definition other_cell_holds :: "grid \<Rightarrow> nat \<Rightarrow> nat \<Rightarrow> int \<Rightarrow> bool" where
  "other_cell_holds g row col v \<longleftrightarrow>
     list_ex (\<lambda>p. p \<noteq> (row, col) \<and> val g p = v)
       (row_cells row @ column_cells col @ box_cells row col)"

text \<open>
  The 27 units: nine rows, nine columns, nine boxes.  A unit has no duplicate when no
  two different cells of it hold the same non-zero digit.
\<close>

definition unit_cells :: "(nat \<times> nat) list list" where
  "unit_cells =
     map row_cells [0..<9] @ map column_cells [0..<9] @
     concat (map (\<lambda>r. map (\<lambda>c. block_cells r c) [0, 3, 6]) [0, 3, 6])"

definition no_duplicate :: "grid \<Rightarrow> (nat \<times> nat) list \<Rightarrow> bool" where
  "no_duplicate g u \<longleftrightarrow>
     list_all (\<lambda>p. list_all (\<lambda>q. p = q \<or> val g p = 0 \<or> val g p \<noteq> val g q) u) u"

definition units_consistent :: "grid \<Rightarrow> bool" where
  "units_consistent g \<longleftrightarrow> list_all (no_duplicate g) unit_cells"

text \<open>
  Notions for the search: a grid is full when none of its 81 cells is empty; \<open>h\<close>
  extends \<open>g\<close> when it agrees with \<open>g\<close> on every non-zero cell of \<open>g\<close>; and a valid
  completion of \<open>g\<close> is a nine by nine grid of digits 1..9 that extends \<open>g\<close> and in
  which no row, column or box holds a digit twice.
\<close>

definition full :: "grid \<Rightarrow> bool" where
  "full g \<longleftrightarrow> list_all (\<lambda>p. val g p \<noteq> 0) all_cells"

definition extends :: "grid \<Rightarrow> grid \<Rightarrow> bool" where
  "extends g h \<longleftrightarrow> list_all (\<lambda>p. val g p = 0 \<or> val h p = val g p) all_cells"

definition cells_between :: "int \<Rightarrow> int \<Rightarrow> grid \<Rightarrow> bool" where
  "cells_between lo hi g \<longleftrightarrow> list_all (\<lambda>p. lo \<le> val g p \<and> val g p \<le> hi) all_cells"

definition valid_completion :: "grid \<Rightarrow> grid \<Rightarrow> bool" where
  "valid_completion g h \<longleftrightarrow>
     grid9x9 h \<and> cells_between 1 9 h \<and> units_consistent h \<and> extends g h"

text \<open>The grids of the data model: nine by nine cells, each between 0 and 9.\<close>

definition well_formed :: "grid \<Rightarrow> bool" where
  "well_formed g \<longleftrightarrow> grid9x9 g \<and> cells_between 0 9 g"

text \<open>
  The candidates of a cell as the specification derives them: none for a filled cell,
  and for an empty cell the digits 1..9 without every value of its row, of its
  column and of the 3x3 box with origin \<open>(row div 3 * 3, col div 3 * 3)\<close>.
\<close>

definition brute_force_candidates :: "grid \<Rightarrow> nat \<Rightarrow> nat \<Rightarrow> int set" where
  "brute_force_candidates g row col =
     (if g ! row ! col \<noteq> 0 then {}
      else {1..9} - set (g ! row) - val g ` set (column_cells col)
             - val g ` set (block_cells (row div 3 * 3) (col div 3 * 3)))"

text \<open>
  The deductions of the specification.  A naked single is an empty cell whose
  candidate set has exactly one member.  A hidden single of a row is a digit 1..9
  not yet in the row for which exactly one empty cell of the row has the digit among
  its candidates; likewise for a column.
\<close>

definition naked_single :: "Board \<Rightarrow> nat \<Rightarrow> nat \<Rightarrow> int \<Rightarrow> bool" where
  "naked_single b r c n \<longleftrightarrow>
     r < 9 \<and> c < 9 \<and> board b ! r ! c = 0 \<and> get_possibilities b r c = Inr {n}"

definition is_candidate :: "Board \<Rightarrow> nat \<Rightarrow> nat \<Rightarrow> int \<Rightarrow> bool" where
  "is_candidate b r c n \<longleftrightarrow>
     board b ! r ! c = 0 \<and> (case get_possibilities b r c of Inl e \<Rightarrow> False | Inr s \<Rightarrow> n \<in> s)"

definition hidden_single_in_row :: "Board \<Rightarrow> nat \<Rightarrow> nat \<Rightarrow> int \<Rightarrow> bool" where
  "hidden_single_in_row b r c n \<longleftrightarrow>
     r < 9 \<and> n \<in> set [1..9] \<and> n \<notin> set (board b ! r)
     \<and> filter (\<lambda>c'. is_candidate b r c' n) [0..<9] = [c]"

definition hidden_single_in_column :: "Board \<Rightarrow> nat \<Rightarrow> nat \<Rightarrow> int \<Rightarrow> bool" where
  "hidden_single_in_column b r c n \<longleftrightarrow>
     c < 9 \<and> n \<in> set [1..9] \<and> \<not> list_ex (\<lambda>p. val (board b) p = n) (column_cells c)
     \<and> filter (\<lambda>r'. is_candidate b r' c n) [0..<9] = [r]"

section \<open>Auxiliary notions and example boards\<close>

text \<open>What a search started on \<open>g\<close> may return: the bool and the grid it leaves.\<close>

definition search_result :: "grid \<Rightarrow> bool \<Rightarrow> grid \<Rightarrow> bool" where
  "search_result g ok g' \<longleftrightarrow>
     grid9x9 g' \<and>
     (if ok then full g' \<and> extends g g' \<and> (units_consistent g \<longrightarrow> units_consistent g')
                \<and> (cells_between 0 9 g \<longrightarrow> cells_between 1 9 g')
      else g' = g)"

text \<open>The same for a search on a grid with its row objects, whatever rows are shared.\<close>

definition search_result_obj :: "obj_grid \<Rightarrow> bool \<Rightarrow> obj_grid \<Rightarrow> bool" where
  "search_result_obj h ok h' \<longleftrightarrow>
     fst h' = fst h \<and> grid9x9 (view h') \<and>
     (if ok then full (view h') \<and> extends (view h) (view h') else h' = h)"

text \<open>The cells that get an entry in the dict, and the entry.\<close>

definition has_candidates :: "Board \<Rightarrow> nat \<times> nat \<Rightarrow> bool" where
  "has_candidates b p \<longleftrightarrow>
     val (board b) p = 0 \<and> brute_force_candidates (board b) (fst p) (snd p) \<noteq> {}"

definition entry :: "Board \<Rightarrow> nat \<times> nat \<Rightarrow> (nat \<times> nat) \<times> int set" where
  "entry b p = (p, brute_force_candidates (board b) (fst p) (snd p))"

text \<open>A board for the examples: two clues in the first row, nothing else.\<close>

definition clue_board :: Board where
  "clue_board =
     \<lparr>board = [5, 3, 0, 0, 0, 0, 0, 0, 0] # replicate 8 (replicate 9 0),
      initial_board = [5, 3, 0, 0, 0, 0, 0, 0, 0] # replicate 8 (replicate 9 0),
      solution = None\<rparr>"

text \<open>
  A grid on which the search fails after two placements: the first cell can take 1
  or 2, and the second cell of the first row can take nothing after either.
\<close>

definition stuck_grid :: grid where
  "stuck_grid =
     [[0, 0, 3, 4, 5, 6, 7, 8, 9],
      [0, 0, 0, 0, 0, 0, 0, 0, 0],
      [0, 0, 0, 0, 0, 0, 0, 0, 0],
      [0, 1, 0, 0, 0, 0, 0, 0, 0],
      [0, 2, 0, 0, 0, 0, 0, 0, 0],
      [0, 0, 0, 0, 0, 0, 0, 0, 0],
      [0, 0, 0, 0, 0, 0, 0, 0, 0],
      [0, 0, 0, 0, 0, 0, 0, 0, 0],
      [0, 0, 0, 0, 0, 0, 0, 0, 0]]"

text \<open>
  A solved grid, the same grid with four cells emptied, a full grid that breaks
  every rule, and a grid of nine by nine cells whose values are out of range.
\<close>

definition solved_grid :: grid where
  "solved_grid =
     [[1, 2, 3, 4, 5, 6, 7, 8, 9],
      [4, 5, 6, 7, 8, 9, 1, 2, 3],
      [7, 8, 9, 1, 2, 3, 4, 5, 6],
      [2, 3, 4, 5, 6, 7, 8, 9, 1],
      [5, 6, 7, 8, 9, 1, 2, 3, 4],
      [8, 9, 1, 2, 3, 4, 5, 6, 7],
      [3, 4, 5, 6, 7, 8, 9, 1, 2],
      [6, 7, 8, 9, 1, 2, 3, 4, 5],
      [9, 1, 2, 3, 4, 5, 6, 7, 8]]"

definition puzzle_grid :: grid where
  "puzzle_grid =
     [[0, 0, 3, 4, 5, 6, 7, 8, 9],
      [0, 0, 6, 7, 8, 9, 1, 2, 3],
      [7, 8, 9, 1, 2, 3, 4, 5, 6],
      [2, 3, 4, 5, 6, 7, 8, 9, 1],
      [5, 6, 7, 8, 9, 1, 2, 3, 4],
      [8, 9, 1, 2, 3, 4, 5, 6, 7],
      [3, 4, 5, 6, 7, 8, 9, 1, 2],
      [6, 7, 8, 9, 1, 2, 3, 4, 5],
      [9, 1, 2, 3, 4, 5, 6, 7, 8]]"

definition ones_grid :: grid where
  "ones_grid = replicate 9 (replicate 9 1)"

definition tens_grid :: grid where
  "tens_grid = replicate 9 (replicate 9 10)"

text \<open>
  A board without a duplicate in any unit that cannot be completed: the cells
  \<open>(0, 0)\<close>, \<open>(1, 6)\<close> and \<open>(8, 1)\<close> are empty and have no candidate, the cell
  \<open>(4, 4)\<close> is empty and has the one candidate 9.
\<close>

definition dead_cell_board :: Board where
  "dead_cell_board =
     \<lparr>board =
        [[0, 2, 3, 4, 5, 6, 7, 8, 9],
         [4, 1, 6, 7, 8, 9, 0, 2, 3],
         [7, 8, 9, 1, 2, 3, 4, 5, 6],
         [2, 3, 4, 5, 6, 7, 8, 9, 1],
         [5, 6, 7, 8, 0, 1, 2, 3, 4],
         [8, 9, 1, 2, 3, 4, 5, 6, 7],
         [3, 4, 5, 6, 7, 8, 9, 1, 2],
         [6, 7, 8, 9, 1, 2, 3, 4, 5],
         [9, 0, 2, 3, 4, 5, 6, 7, 8]],
      initial_board = empty_grid, solution = None\<rparr>"

text \<open>
  Three boards, each a solved grid with some cells emptied.  On the first no cell
  has a single candidate and the digit 6 has one place in the third row; on the
  second no cell has a single candidate, no row has a hidden single, and the digit
  6 has one place in the fourth column; on the third the four empty cells have the
  same two candidates, which allows no deduction.
\<close>

definition row_single_board :: Board where
  "row_single_board =
     \<lparr>board =
        [[1, 2, 3, 4, 5, 6, 7, 0, 0],
         [4, 5, 6, 0, 0, 9, 1, 2, 3],
         [0, 0, 9, 1, 2, 3, 4, 5, 0],
         [2, 1, 4, 3, 6, 5, 0, 0, 7],
         [3, 6, 5, 0, 9, 0, 2, 1, 4],
         [0, 9, 0, 2, 1, 4, 3, 6, 5],
         [5, 3, 1, 6, 4, 2, 0, 7, 0],
         [6, 4, 2, 9, 0, 0, 5, 3, 1],
         [9, 0, 0, 5, 3, 1, 6, 4, 2]],
      initial_board = empty_grid, solution = None\<rparr>"

definition column_single_board :: Board where
  "column_single_board =
     \<lparr>board =
        [[1, 2, 3, 4, 5, 6, 7, 8, 9],
         [4, 5, 6, 7, 8, 9, 0, 0, 3],
         [7, 8, 9, 1, 2, 3, 0, 0, 6],
         [2, 1, 4, 3, 0, 5, 8, 0, 7],
         [3, 0, 5, 8, 0, 7, 0, 0, 4],
         [8, 0, 7, 2, 1, 4, 3, 0, 5],
         [0, 0, 1, 0, 0, 2, 0, 0, 8],
         [6, 4, 2, 0, 7, 8, 0, 3, 1],
         [0, 0, 8, 0, 0, 1, 6, 0, 2]],
      initial_board = empty_grid, solution = None\<rparr>"

definition no_single_board :: Board where
  "no_single_board =
     \<lparr>board =
        [[1, 2, 3, 4, 5, 6, 7, 8, 9],
         [4, 5, 6, 7, 8, 9, 0, 0, 3],
         [7, 8, 9, 1, 2, 3, 4, 5, 6],
         [2, 1, 4, 3, 6, 5, 8, 9, 7],
         [3, 6, 5, 8, 9, 7, 0, 0, 4],
         [8, 9, 7, 2, 1, 4, 3, 6, 5],
         [5, 3, 1, 6, 4, 2, 9, 7, 8],
         [6, 4, 2, 9, 7, 8, 5, 3, 1],
         [9, 7, 8, 5, 3, 1, 6, 4, 2]],
      initial_board = empty_grid, solution = None\<rparr>"

text \<open>
  A run of the generator: the shuffles put the digit of the solved grid first at
  each cell, so that the fill never backtracks, and the draws clear the first thirty
  cells in row-major order.
\<close>

definition solved_first :: "nat \<Rightarrow> int list" where
  "solved_first k =
     (if k < 81 then concat solved_grid ! k # removeAll (concat solved_grid ! k) [1..9]
      else [1..9])"

definition easy_grid :: grid where
  "easy_grid =
     [[0, 0, 0, 0, 0, 0, 0, 0, 0],
      [0, 0, 0, 0, 0, 0, 0, 0, 0],
      [0, 0, 0, 0, 0, 0, 0, 0, 0],
      [0, 0, 0, 5, 6, 7, 8, 9, 1],
      [5, 6, 7, 8, 9, 1, 2, 3, 4],
      [8, 9, 1, 2, 3, 4, 5, 6, 7],
      [3, 4, 5, 6, 7, 8, 9, 1, 2],
      [6, 7, 8, 9, 1, 2, 3, 4, 5],
      [9, 1, 2, 3, 4, 5, 6, 7, 8]]"

text \<open>The board of the examples with nine rows that are nine list objects.\<close>

definition clue_board_obj :: Board_obj where
  "clue_board_obj =
     \<lparr>board_obj = fresh_rows (board clue_board),
      initial_board_obj = fresh_rows (initial_board clue_board),
      solution_obj = None\<rparr>"

text \<open>
  The grid \<open>[[0] * 9] * 9\<close>: nine references to one row of nine zeros, and a board
  that holds it.
\<close>

definition shared_empty_grid :: obj_grid where
  "shared_empty_grid = (replicate 9 0, \<lambda>a. replicate 9 0)"

definition shared_empty_board :: Board_obj where
  "shared_empty_board =
     \<lparr>board_obj = shared_empty_grid, initial_board_obj = shared_empty_grid,
      solution_obj = None\<rparr>"

section \<open>Grids of nine by nine cells\<close>

lemma grid9x9_row_length: "grid9x9 g \<Longrightarrow> r < 9 \<Longrightarrow> length (g ! r) = 9"
  by (simp add: grid9x9_def list_all_length)

lemma grid9x9_length: "grid9x9 g \<Longrightarrow> length g = 9"
  by (simp add: grid9x9_def)

lemma cell_9x9: "grid9x9 g \<Longrightarrow> r < 9 \<Longrightarrow> c < 9 \<Longrightarrow> cell g r c = Inr (g ! r ! c)"
  by (simp add: cell_def grid9x9_row_length grid9x9_length)

lemma set_cell_9x9:
  "grid9x9 g \<Longrightarrow> r < 9 \<Longrightarrow> c < 9 \<Longrightarrow> set_cell g r c v = Inr (put g r c v)"
  by (simp add: set_cell_def grid9x9_row_length grid9x9_length)

lemma grid9x9_put: "grid9x9 g \<Longrightarrow> grid9x9 (put g r c v)"
proof -
  assume g: "grid9x9 g"
  have "length (put g r c v ! n) = 9" if "n < 9" for n
    using that g by (cases "n = r") (simp_all add: put_def grid9x9_row_length grid9x9_length)
  then show ?thesis
    using g by (simp add: grid9x9_def list_all_length put_def)
qed

lemma any_cell_in_range:
  "grid9x9 g \<Longrightarrow> list_all (\<lambda>(r, c). r < 9 \<and> c < 9) ps \<Longrightarrow>
   any_cell g n ps = Inr (list_ex (\<lambda>p. val g p = n) ps)"
  by (induction ps) (auto simp add: cell_9x9 val_def)

lemma column_cells_in_range: "col < 9 \<Longrightarrow> list_all (\<lambda>(r, c). r < 9 \<and> c < 9) (column_cells col)"
  by (simp add: column_cells_def list_all_iff)

lemma row_cells_in_range: "row < 9 \<Longrightarrow> list_all (\<lambda>(r, c). r < 9 \<and> c < 9) (row_cells row)"
  by (simp add: row_cells_def list_all_iff)

lemma box_origin_bound: "(n::nat) < 9 \<Longrightarrow> n div 3 * 3 + 3 \<le> 9"
  by arith

lemma box_cells_in_range:
  "row < 9 \<Longrightarrow> col < 9 \<Longrightarrow> list_all (\<lambda>(r, c). r < 9 \<and> c < 9) (box_cells row col)"
  using box_origin_bound [of row] box_origin_bound [of col]
  by (auto simp add: box_cells_def block_cells_def list_all_iff Let_def)

lemma row_holds_iff:
  "grid9x9 g \<Longrightarrow> row < 9 \<Longrightarrow> n \<in> set (g ! row) \<longleftrightarrow> list_ex (\<lambda>p. val g p = n) (row_cells row)"
  by (auto simp add: row_cells_def list_ex_iff in_set_conv_nth grid9x9_row_length val_def)

lemma is_valid_placement_9x9:
  "grid9x9 g \<Longrightarrow> row < 9 \<Longrightarrow> col < 9 \<Longrightarrow>
   is_valid_placement g row col num = Inr (\<not> unit_holds g row col num)"
  by (simp add: is_valid_placement_def unit_holds_def grid9x9_length row_holds_iff
      any_cell_in_range column_cells_in_range box_cells_in_range split: bool.split)

lemma val_put:
  "grid9x9 g \<Longrightarrow> r < 9 \<Longrightarrow> c < 9 \<Longrightarrow> fst p < 9 \<Longrightarrow> snd p < 9 \<Longrightarrow>
   val (put g r c v) p = (if p = (r, c) then v else val g p)"
  by (cases p) (auto simp add: val_def put_def grid9x9_length grid9x9_row_length nth_list_update)

lemma self_in_row_cells: "col < 9 \<Longrightarrow> (row, col) \<in> set (row_cells row)"
  by (simp add: row_cells_def)

lemma unit_holds_iff_other:
  "col < 9 \<Longrightarrow> unit_holds g row col v \<longleftrightarrow> other_cell_holds g row col v \<or> val g (row, col) = v"
  using self_in_row_cells [of col row]
  by (auto simp add: unit_holds_def other_cell_holds_def list_ex_iff)

lemma place_number_zero_9x9:
  "grid9x9 (board b) \<Longrightarrow> row < 9 \<Longrightarrow> col < 9 \<Longrightarrow>
   place_number b row col 0 = Inr (True, b\<lparr>board := put (board b) row col 0\<rparr>)"
  by (simp add: place_number_def set_cell_9x9)

lemma place_number_digit_9x9:
  "grid9x9 (board b) \<Longrightarrow> row < 9 \<Longrightarrow> col < 9 \<Longrightarrow> v \<noteq> 0 \<Longrightarrow>
   place_number b row col v =
     Inr (if unit_holds (board b) row col v then (False, b)
          else (True, b\<lparr>board := put (board b) row col v\<rparr>))"
  by (simp add: place_number_def set_cell_9x9 is_valid_placement_9x9)

lemma val_put_same:
  "grid9x9 g \<Longrightarrow> r < 9 \<Longrightarrow> c < 9 \<Longrightarrow> put g r c v ! r ! c = v"
  using val_put [of g r c "(r, c)" v] by (simp add: val_def)

lemma unit_cells_in_range:
  "u \<in> set unit_cells \<Longrightarrow> p \<in> set u \<Longrightarrow> fst p < 9 \<and> snd p < 9"
  by (auto simp add: unit_cells_def row_cells_def column_cells_def block_cells_def)

lemma unit_cells_peers:
  assumes "u \<in> set unit_cells" and "(row, col) \<in> set u" and "q \<in> set u"
  shows "q \<in> set (row_cells row @ column_cells col @ box_cells row col)"
proof -
  consider (r) r where "r < 9" "u = row_cells r"
    | (c) c where "c < 9" "u = column_cells c"
    | (b) br bc where "br \<in> {0, 3, 6}" "bc \<in> {0, 3, 6}" "u = block_cells br bc"
    using assms(1) by (auto simp add: unit_cells_def)
  then show ?thesis
  proof cases
    case r
    with assms(2,3) show ?thesis by (auto simp add: row_cells_def)
  next
    case c
    with assms(2,3) show ?thesis by (auto simp add: column_cells_def)
  next
    case b
    from b(1,2) assms(2) have "row div 3 * 3 = br" "col div 3 * 3 = bc"
      unfolding b(3) block_cells_def by auto
    then have "box_cells row col = u"
      unfolding b(3) by (simp add: box_cells_def)
    with assms(3) show ?thesis by simp
  qed
qed

lemma no_duplicate_put:
  assumes g: "grid9x9 g" and rc: "row < 9" "col < 9"
    and u: "u \<in> set unit_cells"
    and ok: "no_duplicate g u"
    and free: "v = 0 \<or> \<not> unit_holds g row col v"
  shows "no_duplicate (put g row col v) u"
proof -
  have "p = q \<or> val (put g row col v) p = 0 \<or> val (put g row col v) p \<noteq> val (put g row col v) q"
    if p: "p \<in> set u" and q: "q \<in> set u" for p q
  proof -
    have rng: "fst p < 9" "snd p < 9" "fst q < 9" "snd q < 9"
      using unit_cells_in_range [OF u] p q by auto
    have old: "p = q \<or> val g p = 0 \<or> val g p \<noteq> val g q"
      using ok p q by (auto simp add: no_duplicate_def list_all_iff)
    have peer: "val g x \<noteq> v" if "v \<noteq> 0" "(row, col) \<in> set u" "x \<in> set u" for x
      using free that unit_cells_peers [OF u that(2,3)]
      by (auto simp add: unit_holds_def list_ex_iff)
    show ?thesis
    proof (cases "v = 0")
      case True
      with old show ?thesis
        by (auto simp add: val_put [OF g rc] rng)
    next
      case False
      show ?thesis
      proof (cases "(row, col) \<in> set u")
        case True
        have "val g p \<noteq> v" "val g q \<noteq> v"
          using peer [OF False True] p q by auto
        with old False show ?thesis
          by (simp add: val_put [OF g rc] rng)
      next
        case False
        with p q have "p \<noteq> (row, col)" "q \<noteq> (row, col)" by auto
        with old show ?thesis
          by (simp add: val_put [OF g rc] rng)
      qed
    qed
  qed
  then show ?thesis
    by (simp add: no_duplicate_def list_all_iff)
qed

lemma units_consistent_put:
  assumes "grid9x9 g" and "row < 9" and "col < 9" and "units_consistent g"
    and "v = 0 \<or> \<not> unit_holds g row col v"
  shows "units_consistent (put g row col v)"
  using assms by (simp add: units_consistent_def list_all_iff no_duplicate_put)

section \<open>The search on a grid of nine by nine cells\<close>

lemma all_cells_in_range: "list_all (\<lambda>(r, c). r < 9 \<and> c < 9) all_cells"
  by (simp add: all_cells_def list_all_iff)

lemma all_cells_iff: "p \<in> set all_cells \<longleftrightarrow> fst p < 9 \<and> snd p < 9"
  by (cases p) (auto simp add: all_cells_def image_iff)

lemma first_empty_in_range:
  "grid9x9 g \<Longrightarrow> list_all (\<lambda>(r, c). r < 9 \<and> c < 9) ps \<Longrightarrow>
   first_empty g ps = Inr (List.find (\<lambda>p. val g p = 0) ps)"
  by (induction ps) (auto simp add: cell_9x9 val_def)

lemma find_empty_cell_9x9:
  "grid9x9 g \<Longrightarrow> find_empty_cell g = Inr (List.find (\<lambda>p. val g p = 0) all_cells)"
  by (simp add: find_empty_cell_def first_empty_in_range all_cells_in_range)

lemma find_empty_cell_None:
  "grid9x9 g \<Longrightarrow> find_empty_cell g = Inr None \<longleftrightarrow> full g"
  by (auto simp add: find_empty_cell_9x9 find_None_iff full_def list_all_iff)

lemma find_empty_cell_Some_9x9:
  assumes "grid9x9 g" and "find_empty_cell g = Inr (Some (r, c))"
  shows "r < 9 \<and> c < 9 \<and> val g (r, c) = 0"
proof -
  from assms have "List.find (\<lambda>p. val g p = 0) all_cells = Some (r, c)"
    by (simp add: find_empty_cell_9x9)
  then have "(r, c) \<in> set all_cells" "val g (r, c) = 0"
    by (auto simp add: find_Some_iff)
  then show ?thesis by (simp add: all_cells_iff)
qed

lemma peers_share_unit:
  assumes "r < 9" and "c < 9"
    and "q \<in> set (row_cells r @ column_cells c @ box_cells r c)"
  shows "\<exists>u \<in> set unit_cells. (r, c) \<in> set u \<and> q \<in> set u"
proof -
  from assms(3) consider "q \<in> set (row_cells r)" | "q \<in> set (column_cells c)"
    | "q \<in> set (box_cells r c)" by auto
  then show ?thesis
  proof cases
    case 1
    moreover have "row_cells r \<in> set unit_cells" "(r, c) \<in> set (row_cells r)"
      using assms(1,2) by (auto simp add: unit_cells_def row_cells_def)
    ultimately show ?thesis by blast
  next
    case 2
    moreover have "column_cells c \<in> set unit_cells" "(r, c) \<in> set (column_cells c)"
      using assms(1,2) by (auto simp add: unit_cells_def column_cells_def)
    ultimately show ?thesis by blast
  next
    case 3
    have "r div 3 * 3 \<in> {0, 3, 6}" "c div 3 * 3 \<in> {0, 3, 6}"
      using assms(1,2) by auto
    then have "box_cells r c \<in> set unit_cells"
      by (auto simp add: unit_cells_def box_cells_def)
    moreover have "r div 3 * 3 \<le> r \<and> r < r div 3 * 3 + 3" "c div 3 * 3 \<le> c \<and> c < c div 3 * 3 + 3"
      by arith+
    then have "(r, c) \<in> set (box_cells r c)"
      by (simp add: box_cells_def block_cells_def Let_def image_iff)
    ultimately show ?thesis using 3 by blast
  qed
qed

lemma extends_refl: "extends g g"
  by (simp add: extends_def list_all_iff)

lemma val_put_cells:
  "grid9x9 g \<Longrightarrow> r < 9 \<Longrightarrow> c < 9 \<Longrightarrow> p \<in> set all_cells \<Longrightarrow>
   val (put g r c v) p = (if p = (r, c) then v else val g p)"
  by (simp add: val_put all_cells_iff)

lemma extends_put:
  assumes "grid9x9 g" and "r < 9" and "c < 9" and "val g (r, c) = 0"
    and "extends (put g r c n) h"
  shows "extends g h"
  unfolding extends_def list_all_iff
proof
  fix p
  assume p: "p \<in> set all_cells"
  with assms(5) have "val (put g r c n) p = 0 \<or> val h p = val (put g r c n) p"
    by (simp add: extends_def list_all_iff)
  with assms(1-4) p show "val g p = 0 \<or> val h p = val g p"
    by (cases "p = (r, c)") (simp_all add: val_put_cells)
qed

lemma cells_between_put:
  assumes "grid9x9 g" and "r < 9" and "c < 9" and "cells_between lo hi g"
    and "lo \<le> n" and "n \<le> hi"
  shows "cells_between lo hi (put g r c n)"
  using assms by (simp add: cells_between_def list_all_iff val_put_cells)

lemma full_cells_between:
  "full g \<Longrightarrow> cells_between 0 9 g \<Longrightarrow> cells_between 1 9 g"
  by (fastforce simp add: full_def cells_between_def list_all_iff)

lemma valid_completion_put:
  assumes "grid9x9 g" and "r < 9" and "c < 9"
    and "valid_completion g h" and "val h (r, c) = n"
  shows "valid_completion (put g r c n) h"
proof -
  have "extends (put g r c n) h"
    unfolding extends_def list_all_iff
  proof
    fix p
    assume p: "p \<in> set all_cells"
    with assms(4) have "val g p = 0 \<or> val h p = val g p"
      by (simp add: valid_completion_def extends_def list_all_iff)
    with assms(1-3,5) p show "val (put g r c n) p = 0 \<or> val h p = val (put g r c n) p"
      by (cases "p = (r, c)") (simp_all add: val_put_cells)
  qed
  with assms(4) show ?thesis by (simp add: valid_completion_def)
qed

lemma valid_completion_conflict:
  assumes "grid9x9 g" and "r < 9" and "c < 9" and "val g (r, c) = 0"
    and "unit_holds g r c n" and "valid_completion g h"
  shows "val h (r, c) \<noteq> n"
proof
  assume hn: "val h (r, c) = n"
  have rc: "(r, c) \<in> set all_cells" using assms(2,3) by (simp add: all_cells_iff)
  from assms(6) rc have "1 \<le> val h (r, c)"
    by (simp add: valid_completion_def cells_between_def list_all_iff)
  with hn have n: "n \<noteq> 0" by simp
  from assms(5) obtain q where q: "q \<in> set (row_cells r @ column_cells c @ box_cells r c)"
    and gq: "val g q = n"
    by (auto simp add: unit_holds_def list_ex_iff)
  from gq n assms(4) have ne: "q \<noteq> (r, c)" by auto
  from peers_share_unit [OF assms(2,3) q] obtain u where
    u: "u \<in> set unit_cells" "(r, c) \<in> set u" "q \<in> set u" by blast
  have "q \<in> set all_cells"
    using unit_cells_in_range [OF u(1,3)] by (simp add: all_cells_iff)
  with assms(6) gq n have hq: "val h q = n"
    by (auto simp add: valid_completion_def extends_def list_all_iff)
  from assms(6) u have "q = (r, c) \<or> val h q = 0 \<or> val h q \<noteq> val h (r, c)"
    by (simp add: valid_completion_def units_consistent_def no_duplicate_def list_all_iff)
  with ne hq hn n show False by simp
qed

lemma search_result_put:
  assumes g: "grid9x9 g" and rc: "r < 9" "c < 9" and e: "val g (r, c) = 0"
    and n: "1 \<le> n" "n \<le> 9" and free: "\<not> unit_holds g r c n"
    and res: "search_result (put g r c n) True g'"
  shows "search_result g True g'"
proof -
  from res have "extends (put g r c n) g'" by (simp add: search_result_def)
  then have "extends g g'" by (rule extends_put [OF g rc e])
  moreover have "units_consistent (put g r c n)" if "units_consistent g"
    using that g rc free by (simp add: units_consistent_put)
  moreover have "cells_between 0 9 (put g r c n)" if "cells_between 0 9 g"
    using that g rc n by (simp add: cells_between_put)
  ultimately show ?thesis
    using res by (simp add: search_result_def)
qed

lemma solve_sound_complete:
  "grid9x9 g \<Longrightarrow>
     \<exists>ok g'. solve_with_backtracking g = Inr (ok, g') \<and> search_result g ok g'
       \<and> (\<not> ok \<longrightarrow> (\<forall>h. \<not> valid_completion g h))"
  "grid9x9 g \<Longrightarrow> r < 9 \<Longrightarrow> c < 9 \<Longrightarrow> val g (r, c) = 0 \<Longrightarrow> set ns \<subseteq> {1..9} \<Longrightarrow>
     \<exists>ok g'. try_numbers g r c ns = Inr (ok, g') \<and> search_result g ok g'
       \<and> (\<not> ok \<longrightarrow> (\<forall>h. valid_completion g h \<longrightarrow> val h (r, c) \<notin> set ns))"
proof (induction g and g r c ns rule: solve_with_backtracking_try_numbers.induct)
  case (1 board)
  note g = \<open>grid9x9 board\<close>
  show ?case
  proof (cases "List.find (\<lambda>p. val board p = 0) all_cells")
    case None
    then have "full board"
      using g by (simp add: find_empty_cell_None [symmetric] find_empty_cell_9x9)
    with g None show ?thesis
      by (auto simp add: find_empty_cell_9x9 search_result_def extends_refl full_cells_between)
  next
    case (Some p)
    obtain r c where p: "p = (r, c)" by (cases p)
    with Some g have e: "find_empty_cell board = Inr (Some (r, c))"
      by (simp add: find_empty_cell_9x9)
    from find_empty_cell_Some_9x9 [OF g e] have rc: "r < 9" "c < 9" "val board (r, c) = 0"
      by simp_all
    have "set [1..9] \<subseteq> {1..9::int}" by simp
    from "1.IH" [OF e refl refl g rc this] obtain ok g' where
      t: "try_numbers board r c [1..9] = Inr (ok, g')" "search_result board ok g'"
        "\<not> ok \<longrightarrow> (\<forall>h. valid_completion board h \<longrightarrow> val h (r, c) \<notin> set [1..9])"
      by blast
    have "\<not> valid_completion board h" if "\<not> ok" for h
    proof
      assume h: "valid_completion board h"
      from rc have "(r, c) \<in> set all_cells" by (simp add: all_cells_iff)
      with h have "1 \<le> val h (r, c) \<and> val h (r, c) \<le> 9"
        by (simp add: valid_completion_def cells_between_def list_all_iff)
      with t(3) that h show False by auto
    qed
    with t e show ?thesis by auto
  qed
next
  case (2 board row col)
  then show ?case by (auto simp add: search_result_def)
next
  case (3 board row col num nums)
  note g = \<open>grid9x9 board\<close> and rc = \<open>row < 9\<close> \<open>col < 9\<close>
    and e = \<open>val board (row, col) = 0\<close>
  from \<open>set (num # nums) \<subseteq> {1..9}\<close> have n: "1 \<le> num" "num \<le> 9" and ns: "set nums \<subseteq> {1..9}"
    by simp_all
  have v: "is_valid_placement board row col num = Inr (\<not> unit_holds board row col num)"
    using g rc by (rule is_valid_placement_9x9)
  show ?case
  proof (cases "unit_holds board row col num")
    case True
    with v have v': "is_valid_placement board row col num = Inr False" by simp
    from "3.IH"(3) [OF v' refl g rc e ns] obtain ok g' where
      t: "try_numbers board row col nums = Inr (ok, g')" "search_result board ok g'"
        "\<not> ok \<longrightarrow> (\<forall>h. valid_completion board h \<longrightarrow> val h (row, col) \<notin> set nums)"
      by blast
    have "val h (row, col) \<noteq> num" if "valid_completion board h" for h
      using valid_completion_conflict [OF g rc e True that] .
    with t v' show ?thesis by auto
  next
    case False
    with v have v': "is_valid_placement board row col num = Inr True" by simp
    let ?b1 = "put board row col num"
    have s1: "set_cell board row col num = Inr ?b1"
      using g rc by (rule set_cell_9x9)
    have g1: "grid9x9 ?b1" using g by (rule grid9x9_put)
    from "3.IH"(1) [OF v' refl s1 g1] obtain ok1 g1' where
      r1: "solve_with_backtracking ?b1 = Inr (ok1, g1')" "search_result ?b1 ok1 g1'"
        "\<not> ok1 \<longrightarrow> (\<forall>h. \<not> valid_completion ?b1 h)"
      by blast
    show ?thesis
    proof (cases ok1)
      case True
      with r1(2) have "search_result board True g1'"
        using search_result_put [OF g rc e n False] by simp
      with True r1(1) v' s1 show ?thesis by auto
    next
      case False
      with r1(2) have g1': "g1' = ?b1" by (simp add: search_result_def)
      have restored: "put ?b1 row col 0 = board"
        using g rc e by (simp add: put_put put_same cell_9x9 val_def)
      have s3: "set_cell g1' row col 0 = Inr board"
        using g1 rc g1' restored by (simp add: set_cell_9x9)
      from False r1(1) g1' have rec: "solve_with_backtracking ?b1 = Inr (False, g1')" by simp
      from "3.IH"(2) [OF v' refl s1 rec refl refl s3 g rc e ns] obtain ok g' where
        t: "try_numbers board row col nums = Inr (ok, g')" "search_result board ok g'"
          "\<not> ok \<longrightarrow> (\<forall>h. valid_completion board h \<longrightarrow> val h (row, col) \<notin> set nums)"
        by blast
      have "val h (row, col) \<noteq> num" if "valid_completion board h" for h
      proof
        assume "val h (row, col) = num"
        with that have "valid_completion ?b1 h"
          using valid_completion_put [OF g rc] by blast
        with r1(3) False show False by blast
      qed
      with t v' s1 rec s3 show ?thesis by auto
    qed
  qed
qed

section \<open>Full grids and \<open>is_valid_complete\<close>\<close>

lemma row_as_cells:
  assumes "grid9x9 g" and "r < 9"
  shows "g ! r = map (val g) (row_cells r)"
proof (rule nth_equalityI)
  show "length (g ! r) = length (map (val g) (row_cells r))"
    using assms by (simp add: grid9x9_row_length row_cells_def)
next
  fix i
  assume "i < length (g ! r)"
  then have "i < 9" using assms by (simp add: grid9x9_row_length)
  then show "g ! r ! i = map (val g) (row_cells r) ! i"
    by (simp add: row_cells_def val_def)
qed

lemma is_complete_iff_full:
  assumes "grid9x9 (board b)"
  shows "is_complete b \<longleftrightarrow> full (board b)"
proof
  assume c: "is_complete b"
  have "val (board b) p \<noteq> 0" if "p \<in> set all_cells" for p
  proof -
    from that have p: "fst p < 9" "snd p < 9" by (simp_all add: all_cells_iff)
    with assms have "board b ! fst p \<in> set (board b)" "val (board b) p \<in> set (board b ! fst p)"
      by (simp_all add: grid9x9_length grid9x9_row_length val_def)
    with c show ?thesis
      by (auto simp add: is_complete_def list_all_iff)
  qed
  then show "full (board b)" by (simp add: full_def list_all_iff)
next
  assume f: "full (board b)"
  have "0 \<notin> set row" if "row \<in> set (board b)" for row
  proof
    assume z: "0 \<in> set row"
    from that obtain r where r: "r < 9" "row = board b ! r"
      using assms by (auto simp add: in_set_conv_nth grid9x9_length)
    with z assms obtain c where c: "c < 9" "board b ! r ! c = 0"
      by (auto simp add: in_set_conv_nth grid9x9_row_length)
    from f r(1) c(1) have "val (board b) (r, c) \<noteq> 0"
      by (simp add: full_def list_all_iff all_cells_iff)
    with c(2) show False by (simp add: val_def)
  qed
  then show "is_complete b" by (simp add: is_complete_def list_all_iff)
qed

lemma read_cells_in_range:
  "grid9x9 g \<Longrightarrow> list_all (\<lambda>(r, c). r < 9 \<and> c < 9) ps \<Longrightarrow>
   read_cells g ps = Inr (map (val g) ps)"
  by (induction ps) (auto simp add: cell_9x9 val_def)

lemma unit_cells_shape:
  assumes "u \<in> set unit_cells"
  shows "distinct u \<and> length u = 9"
proof -
  have "list_all (\<lambda>u. distinct u \<and> length u = 9) unit_cells" by code_simp
  with assms show ?thesis by (simp add: list_all_iff)
qed

lemma unit_values_card:
  assumes "u \<in> set unit_cells" and "full g" and "no_duplicate g u"
  shows "card (set (map (val g) u)) = 9"
proof -
  have "inj_on (val g) (set u)"
  proof (rule inj_onI)
    fix p q
    assume pq: "p \<in> set u" "q \<in> set u" "val g p = val g q"
    from assms(1) pq(1) have "p \<in> set all_cells"
      using unit_cells_in_range [of u p] by (simp add: all_cells_iff)
    with assms(2) have "val g p \<noteq> 0" by (simp add: full_def list_all_iff)
    moreover from assms(3) pq(1,2) have "p = q \<or> val g p = 0 \<or> val g p \<noteq> val g q"
      by (simp add: no_duplicate_def list_all_iff)
    ultimately show "p = q" using pq(3) by simp
  qed
  with unit_cells_shape [OF assms(1)] have "distinct (map (val g) u)"
    by (simp add: distinct_map)
  then have "card (set (map (val g) u)) = length (map (val g) u)"
    by (rule distinct_card)
  with unit_cells_shape [OF assms(1)] show ?thesis by simp
qed

lemma all_nine_units:
  assumes "grid9x9 g" and "full g" and "units_consistent g"
  shows "set us \<subseteq> set unit_cells \<Longrightarrow> all_nine g us = Inr True"
proof (induction us)
  case Nil
  show ?case by simp
next
  case (Cons u us)
  then have u: "u \<in> set unit_cells" by simp
  then have "list_all (\<lambda>(r, c). r < 9 \<and> c < 9) u"
    using unit_cells_in_range [of u] by (auto simp add: list_all_iff)
  then have "read_cells g u = Inr (map (val g) u)"
    using assms(1) by (simp add: read_cells_in_range)
  moreover have "no_duplicate g u"
    using u assms(3) by (simp add: units_consistent_def list_all_iff)
  then have "card (set (map (val g) u)) = 9"
    by (rule unit_values_card [OF u assms(2)])
  ultimately show ?case using Cons by simp
qed

lemma is_valid_complete_full:
  assumes g: "grid9x9 (board b)" and f: "full (board b)" and u: "units_consistent (board b)"
  shows "is_valid_complete b = Inr True"
proof -
  have c: "is_complete b" using g f by (simp add: is_complete_iff_full)
  have rows: "\<not> list_ex (\<lambda>row. card (set row) \<noteq> 9 \<or> 0 \<in> set row) (board b)"
  proof -
    have "card (set row) = 9 \<and> 0 \<notin> set row" if "row \<in> set (board b)" for row
    proof -
      from that obtain r where r: "r < 9" "row = board b ! r"
        using g by (auto simp add: in_set_conv_nth grid9x9_length)
      have "row_cells r \<in> set unit_cells" using r(1) by (simp add: unit_cells_def)
      then have "card (set (map (val (board b)) (row_cells r))) = 9"
        using u by (intro unit_values_card f) (simp_all add: units_consistent_def list_all_iff)
      moreover have "0 \<notin> set row"
        using c that by (simp add: is_complete_def list_all_iff)
      ultimately show ?thesis
        using row_as_cells [OF g r(1)] r(2) by simp
    qed
    then show ?thesis by (auto simp add: list_ex_iff)
  qed
  have cols: "all_nine (board b) (map column_cells [0..<9]) = Inr True"
    by (rule all_nine_units [OF g f u]) (auto simp add: unit_cells_def)
  have boxes: "all_nine (board b)
      (concat (map (\<lambda>box_row. map (\<lambda>box_col. block_cells box_row box_col) [0, 3, 6]) [0, 3, 6]))
      = Inr True"
    by (rule all_nine_units [OF g f u]) (auto simp add: unit_cells_def)
  from c rows cols boxes show ?thesis
    by (simp add: is_valid_complete_def)
qed

section \<open>Candidates\<close>

lemma discard_cells_in_range:
  "grid9x9 g \<Longrightarrow> list_all (\<lambda>(r, c). r < 9 \<and> c < 9) ps \<Longrightarrow>
   discard_cells g ps s = Inr (s - (val g ` set ps - {0}))"
proof (induction ps arbitrary: s)
  case Nil
  show ?case by simp
next
  case (Cons p ps)
  obtain r c where p: "p = (r, c)" by (cases p)
  with Cons.prems have "cell g r c = Inr (val g (r, c))"
    by (simp add: cell_9x9 val_def)
  moreover have "(if val g (r, c) \<noteq> 0 then s - {val g (r, c)} else s) - (val g ` set ps - {0})
      = s - (val g ` set ((r, c) # ps) - {0})"
    by auto
  ultimately show ?case
    using Cons p by simp
qed

lemma get_possibilities_9x9:
  assumes g: "grid9x9 (board b)" and rc: "row < 9" "col < 9"
  shows "get_possibilities b row col = Inr (brute_force_candidates (board b) row col)"
proof -
  have c: "cell (board b) row col = Inr (board b ! row ! col)"
    using g rc by (rule cell_9x9)
  have r: "val (board b) ` set (row_cells row) = set (board b ! row)"
    using row_as_cells [OF g rc(1)] by simp
  have bx: "box_cells row col = block_cells (row div 3 * 3) (col div 3 * 3)"
    by (simp add: box_cells_def)
  have "{1..9} - (set (board b ! row) - {0}) - (val (board b) ` set (column_cells col) - {0})
          - (val (board b) ` set (box_cells row col) - {0})
        = {1..9::int} - set (board b ! row) - val (board b) ` set (column_cells col)
          - val (board b) ` set (block_cells (row div 3 * 3) (col div 3 * 3))"
    unfolding bx by auto
  then show ?thesis
    using g rc
    by (simp add: get_possibilities_def c brute_force_candidates_def discard_cells_in_range
        row_cells_in_range column_cells_in_range box_cells_in_range r)
qed

lemma set_block_cells: "set (block_cells br bc) = {br..<br + 3} \<times> {bc..<bc + 3}"
  by (auto simp add: block_cells_def)

lemma val_block_cells:
  "val g ` set (block_cells br bc)
     = {g ! r ! c | r c. br \<le> r \<and> r < br + 3 \<and> bc \<le> c \<and> c < bc + 3}"
proof (intro set_eqI iffI)
  fix v
  assume "v \<in> val g ` set (block_cells br bc)"
  then obtain r c where "r \<in> {br..<br + 3}" "c \<in> {bc..<bc + 3}" "v = g ! r ! c"
    unfolding set_block_cells by (auto simp add: val_def)
  then show "v \<in> {g ! r ! c | r c. br \<le> r \<and> r < br + 3 \<and> bc \<le> c \<and> c < bc + 3}"
    by auto
next
  fix v
  assume "v \<in> {g ! r ! c | r c. br \<le> r \<and> r < br + 3 \<and> bc \<le> c \<and> c < bc + 3}"
  then obtain r c where rc: "br \<le> r" "r < br + 3" "bc \<le> c" "c < bc + 3" "v = g ! r ! c"
    by auto
  then have "(r, c) \<in> set (block_cells br bc)"
    unfolding set_block_cells by simp
  moreover have "v = val g (r, c)" using rc(5) by (simp add: val_def)
  ultimately show "v \<in> val g ` set (block_cells br bc)" by blast
qed

lemma brute_force_candidates_digits: "brute_force_candidates g row col \<subseteq> {1..9}"
  by (auto simp add: brute_force_candidates_def)

lemma update_fresh_key: "k \<notin> fst ` set al \<Longrightarrow> AList.update k v al = al @ [(k, v)]"
  by (induction al) auto

lemma collect_possibilities_9x9:
  assumes g: "grid9x9 (board b)"
  shows "list_all (\<lambda>(r, c). r < 9 \<and> c < 9) ps \<Longrightarrow> distinct ps \<Longrightarrow>
     fst ` set acc \<inter> set ps = {} \<Longrightarrow>
     collect_possibilities b ps acc = Inr (acc @ map (entry b) (filter (has_candidates b) ps))"
proof (induction ps arbitrary: acc)
  case Nil
  show ?case by simp
next
  case (Cons p ps)
  obtain r c where p: "p = (r, c)" by (cases p)
  with Cons.prems have rc: "r < 9" "c < 9" by simp_all
  have cell: "cell (board b) r c = Inr (val (board b) (r, c))"
    using g rc by (simp add: cell_9x9 val_def)
  have poss: "get_possibilities b r c = Inr (brute_force_candidates (board b) r c)"
    using g rc by (rule get_possibilities_9x9)
  show ?case
  proof (cases "has_candidates b (r, c)")
    case True
    let ?acc = "acc @ [entry b (r, c)]"
    from Cons.prems p have fresh: "(r, c) \<notin> fst ` set acc" by auto
    have "fst (entry b (r, c)) = (r, c)" by (simp add: entry_def)
    then have "fst ` set ?acc \<inter> set ps = {}"
      using Cons.prems p by auto
    with Cons.IH [of ?acc] Cons.prems
    have "collect_possibilities b ps ?acc
        = Inr (?acc @ map (entry b) (filter (has_candidates b) ps))"
      by simp
    moreover have "entry b (r, c) = ((r, c), brute_force_candidates (board b) r c)"
      by (simp add: entry_def)
    moreover from True have "val (board b) (r, c) = 0"
      "brute_force_candidates (board b) r c \<noteq> {}"
      by (simp_all add: has_candidates_def)
    ultimately show ?thesis
      using True fresh by (simp add: p cell poss update_fresh_key)
  next
    case False
    have "fst ` set acc \<inter> set ps = {}"
      using Cons.prems by auto
    with Cons.IH [of acc] Cons.prems
    have "collect_possibilities b ps acc
        = Inr (acc @ map (entry b) (filter (has_candidates b) ps))"
      by simp
    moreover from False have "val (board b) (r, c) \<noteq> 0
      \<or> brute_force_candidates (board b) r c = {}"
      by (simp add: has_candidates_def)
    ultimately show ?thesis
      using False by (auto simp add: p cell poss)
  qed
qed

lemma distinct_all_cells: "distinct all_cells"
  by code_simp

lemma get_all_possibilities_9x9:
  assumes "grid9x9 (board b)"
  shows "get_all_possibilities b = Inr (map (entry b) (filter (has_candidates b) all_cells))"
  using collect_possibilities_9x9 [OF assms all_cells_in_range distinct_all_cells, of "[]"]
  by (simp add: get_all_possibilities_def)

section \<open>Naked and hidden singles\<close>

lemma filter_head_first:
  assumes "sorted_wrt R xs" and "filter P xs = y # ys"
  shows "P y \<and> y \<in> set xs \<and> (\<forall>z \<in> set xs. P z \<longrightarrow> z = y \<or> R y z)"
proof -
  from assms(2) obtain us vs where
    xs: "xs = us @ y # vs" and us: "\<forall>u \<in> set us. \<not> P u" and y: "P y"
    by (auto simp add: filter_eq_Cons_iff)
  from assms(1) xs have "\<forall>z \<in> set vs. R y z"
    by (simp add: sorted_wrt_append)
  with xs us y show ?thesis by auto
qed

lemma singleton_list_iff: "xs = [x] \<longleftrightarrow> length xs = 1 \<and> xs ! 0 = x"
  by (cases xs) auto

lemma is_candidate_9x9:
  assumes "grid9x9 (board b)" and "r < 9" and "c < 9"
  shows "is_candidate b r c n \<longleftrightarrow>
     val (board b) (r, c) = 0 \<and> n \<in> brute_force_candidates (board b) r c"
  using assms by (simp add: is_candidate_def get_possibilities_9x9 val_def)

lemma naked_single_9x9:
  assumes "grid9x9 (board b)"
  shows "naked_single b r c n \<longleftrightarrow>
     (r, c) \<in> set all_cells \<and> val (board b) (r, c) = 0
     \<and> brute_force_candidates (board b) r c = {n}"
  using assms by (auto simp add: naked_single_def get_possibilities_9x9 all_cells_iff val_def)

lemma naked_singles_of_entries:
  "naked_singles_of (map (entry b) ps) =
     map (\<lambda>p. (fst p, snd p, the_elem (brute_force_candidates (board b) (fst p) (snd p))))
       (filter (\<lambda>p. card (brute_force_candidates (board b) (fst p) (snd p)) = 1) ps)"
proof (induction ps)
  case Nil
  show ?case by simp
next
  case (Cons p ps)
  obtain r c where "p = (r, c)" by (cases p)
  with Cons show ?case by (simp add: entry_def)
qed

lemma sorted_all_cells:
  "sorted_wrt (\<lambda>p q. fst p < fst q \<or> (fst p = fst q \<and> snd p < snd q)) all_cells"
  by code_simp

lemma find_naked_singles_9x9:
  assumes g: "grid9x9 (board b)"
  shows "\<exists>singles. find_naked_singles b = Inr singles
      \<and> (singles = [] \<longrightarrow> (\<forall>r c n. \<not> naked_single b r c n))
      \<and> (\<forall>x xs. singles = x # xs \<longrightarrow>
           (\<exists>r c n. x = (r, c, n) \<and> naked_single b r c n
              \<and> (\<forall>r' c' n'. naked_single b r' c' n' \<longrightarrow> r < r' \<or> (r = r' \<and> c \<le> c'))))"
proof -
  let ?cand = "\<lambda>p. brute_force_candidates (board b) (fst p) (snd p)"
  let ?N = "\<lambda>p. has_candidates b p \<and> card (?cand p) = 1"
  let ?f = "\<lambda>p. (fst p, snd p, the_elem (?cand p))"
  let ?L = "map ?f (filter ?N all_cells)"
  have L: "find_naked_singles b = Inr ?L"
    by (simp add: find_naked_singles_def get_all_possibilities_9x9 [OF g]
        naked_singles_of_entries conj_commute)
  have N: "?N (r, c) \<and> (r, c) \<in> set all_cells \<and> n = the_elem (?cand (r, c))"
    if "naked_single b r c n" for r c n
    using that by (simp add: naked_single_9x9 [OF g] has_candidates_def)
  have empty: "\<not> naked_single b r c n" if "?L = []" for r c n
  proof
    assume "naked_single b r c n"
    from N [OF this] have "(r, c) \<in> set (filter ?N all_cells)" by simp
    with that show False by simp
  qed
  have first: "\<exists>r c n. x = (r, c, n) \<and> naked_single b r c n
      \<and> (\<forall>r' c' n'. naked_single b r' c' n' \<longrightarrow> r < r' \<or> (r = r' \<and> c \<le> c'))"
    if "?L = x # xs" for x xs
  proof -
    from that obtain p ps where f: "filter ?N all_cells = p # ps" and x: "x = ?f p"
      by (auto simp add: map_eq_Cons_conv)
    from filter_head_first [OF sorted_all_cells f]
    have p: "?N p" "p \<in> set all_cells"
      and least: "\<And>z. z \<in> set all_cells \<Longrightarrow> ?N z \<Longrightarrow>
         z = p \<or> fst p < fst z \<or> (fst p = fst z \<and> snd p < snd z)"
      by blast+
    from p(1) obtain n where n: "?cand p = {n}"
      by (auto simp add: card_1_singleton_iff)
    with p have "naked_single b (fst p) (snd p) n"
      by (simp add: naked_single_9x9 [OF g] has_candidates_def)
    moreover have "fst p < r' \<or> (fst p = r' \<and> snd p \<le> c')" if "naked_single b r' c' n'"
      for r' c' n'
      using N [OF that] least [of "(r', c')"] by auto
    moreover have "x = (fst p, snd p, n)" using x n by simp
    ultimately show ?thesis by blast
  qed
  from L empty first show ?thesis by blast
qed

lemma row_positions_9x9:
  assumes g: "grid9x9 (board b)" and r: "r < 9"
  shows "list_all (\<lambda>c. c < 9) cols \<Longrightarrow>
     row_positions b r n cols = Inr (filter (\<lambda>c. is_candidate b r c n) cols)"
proof (induction cols)
  case Nil
  show ?case by simp
next
  case (Cons c cols)
  then have c: "c < 9" by simp
  have "cell (board b) r c = Inr (val (board b) (r, c))"
    using g r c by (simp add: cell_9x9 val_def)
  moreover have "get_possibilities b r c = Inr (brute_force_candidates (board b) r c)"
    using g r c by (rule get_possibilities_9x9)
  ultimately show ?case
    using Cons by (simp add: is_candidate_9x9 [OF g r c])
qed

lemma column_positions_9x9:
  assumes g: "grid9x9 (board b)" and c: "c < 9"
  shows "list_all (\<lambda>r. r < 9) rows \<Longrightarrow>
     column_positions b c n rows = Inr (filter (\<lambda>r. is_candidate b r c n) rows)"
proof (induction rows)
  case Nil
  show ?case by simp
next
  case (Cons r rows)
  then have r: "r < 9" by simp
  have "cell (board b) r c = Inr (val (board b) (r, c))"
    using g r c by (simp add: cell_9x9 val_def)
  moreover have "get_possibilities b r c = Inr (brute_force_candidates (board b) r c)"
    using g r c by (rule get_possibilities_9x9)
  ultimately show ?case
    using Cons by (simp add: is_candidate_9x9 [OF g r c])
qed

lemma upt_9_in_range: "list_all (\<lambda>i. i < 9) [0..<9]"
  by (simp add: list_all_iff)

lemma hidden_singles_in_row_9x9:
  assumes g: "grid9x9 (board b)" and r: "r < 9"
  shows "hidden_singles_in_row b r ns =
     Inr (map (\<lambda>n. (r, filter (\<lambda>c. is_candidate b r c n) [0..<9] ! 0, n))
            (filter (\<lambda>n. n \<notin> set (board b ! r)
               \<and> length (filter (\<lambda>c. is_candidate b r c n) [0..<9]) = 1) ns))"
proof (induction ns)
  case Nil
  show ?case by simp
next
  case (Cons n ns)
  have "r < length (board b)" using g r by (simp add: grid9x9_length)
  with Cons show ?case
    by (simp add: row_positions_9x9 [OF g r upt_9_in_range])
qed

lemma hidden_singles_in_column_9x9:
  assumes g: "grid9x9 (board b)" and c: "c < 9"
  shows "hidden_singles_in_column b c ns =
     Inr (map (\<lambda>n. (filter (\<lambda>r. is_candidate b r c n) [0..<9] ! 0, c, n))
            (filter (\<lambda>n. \<not> list_ex (\<lambda>p. val (board b) p = n) (column_cells c)
               \<and> length (filter (\<lambda>r. is_candidate b r c n) [0..<9]) = 1) ns))"
proof (induction ns)
  case Nil
  show ?case by simp
next
  case (Cons n ns)
  have "any_cell (board b) n (column_cells c)
      = Inr (list_ex (\<lambda>p. val (board b) p = n) (column_cells c))"
    using g c by (simp add: any_cell_in_range column_cells_in_range)
  with Cons show ?case
    by (cases "list_ex (\<lambda>p. val (board b) p = n) (column_cells c)")
      (simp_all add: column_positions_9x9 [OF g c upt_9_in_range])
qed

lemma sorted_digits: "sorted_wrt (<) [1..9::int]"
  by code_simp

lemma find_hidden_singles_in_row_9x9:
  assumes g: "grid9x9 (board b)" and r: "r < 9"
  shows "\<exists>singles. find_hidden_singles_in_row b r = Inr singles
      \<and> (singles = [] \<longrightarrow> (\<forall>c n. \<not> hidden_single_in_row b r c n))
      \<and> (\<forall>x xs. singles = x # xs \<longrightarrow>
           (\<exists>c n. x = (r, c, n) \<and> hidden_single_in_row b r c n
              \<and> (\<forall>c' n'. hidden_single_in_row b r c' n' \<longrightarrow> n \<le> n')))"
proof -
  let ?cc = "\<lambda>n. filter (\<lambda>c. is_candidate b r c n) [0..<9]"
  let ?H = "\<lambda>n. n \<notin> set (board b ! r) \<and> length (?cc n) = 1"
  let ?L = "map (\<lambda>n. (r, ?cc n ! 0, n)) (filter ?H [1..9])"
  have L: "find_hidden_singles_in_row b r = Inr ?L"
    by (simp only: find_hidden_singles_in_row_def hidden_singles_in_row_9x9 [OF g r])
  have H: "hidden_single_in_row b r c n \<longleftrightarrow> n \<in> set [1..9] \<and> ?H n \<and> c = ?cc n ! 0" for c n
    using r by (auto simp add: hidden_single_in_row_def singleton_list_iff)
  have empty: "\<not> hidden_single_in_row b r c n" if "?L = []" for c n
  proof
    assume "hidden_single_in_row b r c n"
    then have "n \<in> set (filter ?H [1..9])" unfolding H by simp
    with that show False by simp
  qed
  have first: "\<exists>c n. x = (r, c, n) \<and> hidden_single_in_row b r c n
      \<and> (\<forall>c' n'. hidden_single_in_row b r c' n' \<longrightarrow> n \<le> n')"
    if "?L = x # xs" for x xs
  proof -
    from that obtain n ns where f: "filter ?H [1..9] = n # ns" and x: "x = (r, ?cc n ! 0, n)"
      by (auto simp add: map_eq_Cons_conv)
    from filter_head_first [OF sorted_digits f]
    have n: "?H n" "n \<in> set [1..9]"
      and least: "\<And>z. z \<in> set [1..9] \<Longrightarrow> ?H z \<Longrightarrow> z = n \<or> n < z"
      by blast+
    from n have "hidden_single_in_row b r (?cc n ! 0) n" unfolding H by simp
    moreover have "n \<le> n'" if "hidden_single_in_row b r c' n'" for c' n'
      using that least [of n'] unfolding H by auto
    ultimately show ?thesis using x by blast
  qed
  from L empty first show ?thesis by blast
qed

lemma find_hidden_singles_in_column_9x9:
  assumes g: "grid9x9 (board b)" and c: "c < 9"
  shows "\<exists>singles. find_hidden_singles_in_column b c = Inr singles
      \<and> (singles = [] \<longrightarrow> (\<forall>r n. \<not> hidden_single_in_column b r c n))
      \<and> (\<forall>x xs. singles = x # xs \<longrightarrow>
           (\<exists>r n. x = (r, c, n) \<and> hidden_single_in_column b r c n
              \<and> (\<forall>r' n'. hidden_single_in_column b r' c n' \<longrightarrow> n \<le> n')))"
proof -
  let ?cc = "\<lambda>n. filter (\<lambda>r. is_candidate b r c n) [0..<9]"
  let ?H = "\<lambda>n. \<not> list_ex (\<lambda>p. val (board b) p = n) (column_cells c) \<and> length (?cc n) = 1"
  let ?L = "map (\<lambda>n. (?cc n ! 0, c, n)) (filter ?H [1..9])"
  have L: "find_hidden_singles_in_column b c = Inr ?L"
    by (simp only: find_hidden_singles_in_column_def hidden_singles_in_column_9x9 [OF g c])
  have H: "hidden_single_in_column b r c n \<longleftrightarrow> n \<in> set [1..9] \<and> ?H n \<and> r = ?cc n ! 0" for r n
    using c by (auto simp add: hidden_single_in_column_def singleton_list_iff)
  have empty: "\<not> hidden_single_in_column b r c n" if "?L = []" for r n
  proof
    assume "hidden_single_in_column b r c n"
    then have "n \<in> set (filter ?H [1..9])" unfolding H by simp
    with that show False by simp
  qed
  have first: "\<exists>r n. x = (r, c, n) \<and> hidden_single_in_column b r c n
      \<and> (\<forall>r' n'. hidden_single_in_column b r' c n' \<longrightarrow> n \<le> n')"
    if "?L = x # xs" for x xs
  proof -
    from that obtain n ns where f: "filter ?H [1..9] = n # ns" and x: "x = (?cc n ! 0, c, n)"
      by (auto simp add: map_eq_Cons_conv)
    from filter_head_first [OF sorted_digits f]
    have n: "?H n" "n \<in> set [1..9]"
      and least: "\<And>z. z \<in> set [1..9] \<Longrightarrow> ?H z \<Longrightarrow> z = n \<or> n < z"
      by blast+
    from n have "hidden_single_in_column b (?cc n ! 0) c n" unfolding H by simp
    moreover have "n \<le> n'" if "hidden_single_in_column b r' c n'" for r' n'
      using that least [of n'] unfolding H by auto
    ultimately show ?thesis using x by blast
  qed
  from L empty first show ?thesis by blast
qed

lemma first_row_deduction_9x9:
  assumes g: "grid9x9 (board b)"
  shows "list_all (\<lambda>r. r < 9) rows \<Longrightarrow> sorted_wrt (<) rows \<Longrightarrow>
     \<exists>d. first_row_deduction b rows = Inr d
       \<and> (d = None \<longrightarrow> (\<forall>r c n. r \<in> set rows \<longrightarrow> \<not> hidden_single_in_row b r c n))
       \<and> (\<forall>x. d = Some x \<longrightarrow>
            (\<exists>r c n. x = HiddenSingleRow r c n \<and> r \<in> set rows \<and> hidden_single_in_row b r c n
               \<and> (\<forall>r' c' n'. r' \<in> set rows \<longrightarrow> hidden_single_in_row b r' c' n' \<longrightarrow>
                     r < r' \<or> (r = r' \<and> n \<le> n'))))"
proof (induction rows)
  case Nil
  show ?case by simp
next
  case (Cons row rows)
  note IH = Cons.IH
  from Cons.prems have row: "row < 9" and later: "\<forall>r' \<in> set rows. row < r'"
    and rest: "list_all (\<lambda>r. r < 9) rows" "sorted_wrt (<) rows"
    by simp_all
  from find_hidden_singles_in_row_9x9 [OF g row] obtain singles where
    found: "find_hidden_singles_in_row b row = Inr singles
      \<and> (singles = [] \<longrightarrow> (\<forall>c n. \<not> hidden_single_in_row b row c n))
      \<and> (\<forall>x xs. singles = x # xs \<longrightarrow>
           (\<exists>c n. x = (row, c, n) \<and> hidden_single_in_row b row c n
              \<and> (\<forall>c' n'. hidden_single_in_row b row c' n' \<longrightarrow> n \<le> n')))" ..
  from found have s: "find_hidden_singles_in_row b row = Inr singles" by (rule conjunct1)
  have none: "\<not> hidden_single_in_row b row c n" if "singles = []" for c n
    using found [THEN conjunct2, THEN conjunct1] that by (elim impE allE) assumption
  have some: "\<exists>c n. x = (row, c, n) \<and> hidden_single_in_row b row c n
         \<and> (\<forall>c' n'. hidden_single_in_row b row c' n' \<longrightarrow> n \<le> n')"
    if "singles = x # xs" for x xs
    using found [THEN conjunct2, THEN conjunct2, THEN spec, THEN spec, THEN mp, OF that] .
  show ?case
  proof (cases singles)
    case Nil
    from IH [OF rest] obtain d where
      d: "first_row_deduction b rows = Inr d"
      and dn: "d = None \<longrightarrow> (\<forall>r c n. r \<in> set rows \<longrightarrow> \<not> hidden_single_in_row b r c n)"
      and ds: "\<forall>x. d = Some x \<longrightarrow>
            (\<exists>r c n. x = HiddenSingleRow r c n \<and> r \<in> set rows \<and> hidden_single_in_row b r c n
               \<and> (\<forall>r' c' n'. r' \<in> set rows \<longrightarrow> hidden_single_in_row b r' c' n' \<longrightarrow>
                     r < r' \<or> (r = r' \<and> n \<le> n')))"
      by blast
    have "first_row_deduction b (row # rows) = Inr d"
      using s Nil d by simp
    moreover have "\<forall>r c n. r \<in> set (row # rows) \<longrightarrow> \<not> hidden_single_in_row b r c n"
      if "d = None"
      using that dn none [OF Nil] by auto
    moreover have "\<exists>r c n. x = HiddenSingleRow r c n \<and> r \<in> set (row # rows)
        \<and> hidden_single_in_row b r c n
        \<and> (\<forall>r' c' n'. r' \<in> set (row # rows) \<longrightarrow> hidden_single_in_row b r' c' n' \<longrightarrow>
              r < r' \<or> (r = r' \<and> n \<le> n'))"
      if "d = Some x" for x
    proof -
      from ds that obtain r c n where
        x: "x = HiddenSingleRow r c n" "r \<in> set rows" "hidden_single_in_row b r c n"
        and least: "\<And>r' c' n'. r' \<in> set rows \<Longrightarrow> hidden_single_in_row b r' c' n' \<Longrightarrow>
              r < r' \<or> (r = r' \<and> n \<le> n')"
        by blast
      have "r < r' \<or> (r = r' \<and> n \<le> n')"
        if "r' \<in> set (row # rows)" "hidden_single_in_row b r' c' n'" for r' c' n'
        using that least [of r' c' n'] none [OF Nil, of c' n'] by auto
      with x show ?thesis by auto
    qed
    ultimately show ?thesis by blast
  next
    case (Cons x xs)
    from some [OF Cons] obtain c n where
      x: "x = (row, c, n)" "hidden_single_in_row b row c n"
      and least: "\<And>c' n'. hidden_single_in_row b row c' n' \<Longrightarrow> n \<le> n'"
      by blast
    have "first_row_deduction b (row # rows) = Inr (Some (HiddenSingleRow row c n))"
      using s Cons x(1) by simp
    moreover have "row < r' \<or> (row = r' \<and> n \<le> n')"
      if "r' \<in> set (row # rows)" "hidden_single_in_row b r' c' n'" for r' c' n'
      using that least [of c' n'] later by auto
    ultimately show ?thesis using x(2) by auto
  qed
qed

lemma first_column_deduction_9x9:
  assumes g: "grid9x9 (board b)"
  shows "list_all (\<lambda>c. c < 9) cols \<Longrightarrow> sorted_wrt (<) cols \<Longrightarrow>
     \<exists>d. first_column_deduction b cols = Inr d
       \<and> (d = None \<longrightarrow> (\<forall>r c n. c \<in> set cols \<longrightarrow> \<not> hidden_single_in_column b r c n))
       \<and> (\<forall>x. d = Some x \<longrightarrow>
            (\<exists>r c n. x = HiddenSingleColumn r c n \<and> c \<in> set cols
               \<and> hidden_single_in_column b r c n
               \<and> (\<forall>r' c' n'. c' \<in> set cols \<longrightarrow> hidden_single_in_column b r' c' n' \<longrightarrow>
                     c < c' \<or> (c = c' \<and> n \<le> n'))))"
proof (induction cols)
  case Nil
  show ?case by simp
next
  case (Cons col cols)
  note IH = Cons.IH
  from Cons.prems have col: "col < 9" and later: "\<forall>c' \<in> set cols. col < c'"
    and rest: "list_all (\<lambda>c. c < 9) cols" "sorted_wrt (<) cols"
    by simp_all
  from find_hidden_singles_in_column_9x9 [OF g col] obtain singles where
    found: "find_hidden_singles_in_column b col = Inr singles
      \<and> (singles = [] \<longrightarrow> (\<forall>r n. \<not> hidden_single_in_column b r col n))
      \<and> (\<forall>x xs. singles = x # xs \<longrightarrow>
           (\<exists>r n. x = (r, col, n) \<and> hidden_single_in_column b r col n
              \<and> (\<forall>r' n'. hidden_single_in_column b r' col n' \<longrightarrow> n \<le> n')))" ..
  from found have s: "find_hidden_singles_in_column b col = Inr singles" by (rule conjunct1)
  have none: "\<not> hidden_single_in_column b r col n" if "singles = []" for r n
    using found [THEN conjunct2, THEN conjunct1] that by (elim impE allE) assumption
  have some: "\<exists>r n. x = (r, col, n) \<and> hidden_single_in_column b r col n
         \<and> (\<forall>r' n'. hidden_single_in_column b r' col n' \<longrightarrow> n \<le> n')"
    if "singles = x # xs" for x xs
    using found [THEN conjunct2, THEN conjunct2, THEN spec, THEN spec, THEN mp, OF that] .
  show ?case
  proof (cases singles)
    case Nil
    from IH [OF rest] obtain d where
      d: "first_column_deduction b cols = Inr d"
      and dn: "d = None \<longrightarrow> (\<forall>r c n. c \<in> set cols \<longrightarrow> \<not> hidden_single_in_column b r c n)"
      and ds: "\<forall>x. d = Some x \<longrightarrow>
            (\<exists>r c n. x = HiddenSingleColumn r c n \<and> c \<in> set cols
               \<and> hidden_single_in_column b r c n
               \<and> (\<forall>r' c' n'. c' \<in> set cols \<longrightarrow> hidden_single_in_column b r' c' n' \<longrightarrow>
                     c < c' \<or> (c = c' \<and> n \<le> n')))"
      by blast
    have "first_column_deduction b (col # cols) = Inr d"
      using s Nil d by simp
    moreover have "\<forall>r c n. c \<in> set (col # cols) \<longrightarrow> \<not> hidden_single_in_column b r c n"
      if "d = None"
      using that dn none [OF Nil] by auto
    moreover have "\<exists>r c n. x = HiddenSingleColumn r c n \<and> c \<in> set (col # cols)
        \<and> hidden_single_in_column b r c n
        \<and> (\<forall>r' c' n'. c' \<in> set (col # cols) \<longrightarrow> hidden_single_in_column b r' c' n' \<longrightarrow>
              c < c' \<or> (c = c' \<and> n \<le> n'))"
      if "d = Some x" for x
    proof -
      from ds that obtain r c n where
        x: "x = HiddenSingleColumn r c n" "c \<in> set cols" "hidden_single_in_column b r c n"
        and least: "\<And>r' c' n'. c' \<in> set cols \<Longrightarrow> hidden_single_in_column b r' c' n' \<Longrightarrow>
              c < c' \<or> (c = c' \<and> n \<le> n')"
        by blast
      have "c < c' \<or> (c = c' \<and> n \<le> n')"
        if "c' \<in> set (col # cols)" "hidden_single_in_column b r' c' n'" for r' c' n'
        using that least [of c' r' n'] none [OF Nil, of r' n'] by auto
      with x show ?thesis by auto
    qed
    ultimately show ?thesis by blast
  next
    case (Cons x xs)
    from some [OF Cons] obtain r n where
      x: "x = (r, col, n)" "hidden_single_in_column b r col n"
      and least: "\<And>r' n'. hidden_single_in_column b r' col n' \<Longrightarrow> n \<le> n'"
      by blast
    have "first_column_deduction b (col # cols) = Inr (Some (HiddenSingleColumn r col n))"
      using s Cons x(1) by simp
    moreover have "col < c' \<or> (col = c' \<and> n \<le> n')"
      if "c' \<in> set (col # cols)" "hidden_single_in_column b r' c' n'" for r' c' n'
      using that least [of r' n'] later by auto
    ultimately show ?thesis using x(2) by auto
  qed
qed

section \<open>The generator\<close>

lemma gen_find_empty_cell_eq: "gen_find_empty_cell g = find_empty_cell g"
  by (simp add: gen_find_empty_cell_def find_empty_cell_def)

lemma gen_is_valid_eq: "gen_is_valid g r c n = is_valid_placement g r c n"
  by (simp add: gen_is_valid_def is_valid_placement_def)

text \<open>
  On a grid of nine by nine cells the randomized fill returns without an error; it
  leaves a full grid when it returns \<open>True\<close> and the grid it was given when it returns
  \<open>False\<close>.
\<close>

lemma fill_result:
  "grid9x9 g \<Longrightarrow>
     \<exists>ok g' k'. fill_board_randomly rnd g k = Inr (ok, g', k') \<and> grid9x9 g'
       \<and> (if ok then full g' else g' = g)"
  "grid9x9 g \<Longrightarrow> r < 9 \<Longrightarrow> c < 9 \<Longrightarrow> val g (r, c) = 0 \<Longrightarrow>
     \<exists>ok g' k'. fill_numbers rnd g k r c ns = Inr (ok, g', k') \<and> grid9x9 g'
       \<and> (if ok then full g' else g' = g)"
proof (induction rnd g k and rnd g k r c ns rule: fill_board_randomly_fill_numbers.induct)
  case (1 rnd board k)
  note g = \<open>grid9x9 board\<close>
  show ?case
  proof (cases "List.find (\<lambda>p. val board p = 0) all_cells")
    case None
    then have "full board"
      using g by (simp add: find_empty_cell_None [symmetric] find_empty_cell_9x9)
    with g None show ?thesis
      by (auto simp add: gen_find_empty_cell_eq find_empty_cell_9x9)
  next
    case (Some p)
    obtain r c where p: "p = (r, c)" by (cases p)
    with Some g have e: "gen_find_empty_cell board = Inr (Some (r, c))"
      by (simp add: gen_find_empty_cell_eq find_empty_cell_9x9)
    then have "find_empty_cell board = Inr (Some (r, c))"
      by (simp add: gen_find_empty_cell_eq)
    from find_empty_cell_Some_9x9 [OF g this] have rc: "r < 9" "c < 9" "val board (r, c) = 0"
      by simp_all
    from "1.IH" [OF e refl refl g rc] e show ?thesis
      by simp
  qed
next
  case (2 rnd board k row col)
  then show ?case by auto
next
  case (3 rnd board k row col num numbers)
  note g = \<open>grid9x9 board\<close> and rc = \<open>row < 9\<close> \<open>col < 9\<close>
    and e = \<open>val board (row, col) = 0\<close>
  have v: "gen_is_valid board row col num = Inr (\<not> unit_holds board row col num)"
    using g rc by (simp add: gen_is_valid_eq is_valid_placement_9x9)
  show ?case
  proof (cases "unit_holds board row col num")
    case True
    with v have v': "gen_is_valid board row col num = Inr False" by simp
    from "3.IH"(3) [OF v' refl g rc e] v' show ?thesis by simp
  next
    case False
    with v have v': "gen_is_valid board row col num = Inr True" by simp
    let ?b1 = "put board row col num"
    have s1: "set_cell board row col num = Inr ?b1"
      using g rc by (rule set_cell_9x9)
    have g1: "grid9x9 ?b1" using g by (rule grid9x9_put)
    from "3.IH"(1) [OF v' refl s1 g1] obtain ok1 g1' k1 where
      r1: "fill_board_randomly rnd ?b1 k = Inr (ok1, g1', k1)" "grid9x9 g1'"
        "if ok1 then full g1' else g1' = ?b1"
      by blast
    show ?thesis
    proof (cases ok1)
      case True
      with r1 v' s1 show ?thesis by auto
    next
      case False
      with r1(3) have g1': "g1' = ?b1" by simp
      have restored: "put ?b1 row col 0 = board"
        using g rc e by (simp add: put_put put_same cell_9x9 val_def)
      have s3: "set_cell g1' row col 0 = Inr board"
        using g1 rc g1' restored by (simp add: set_cell_9x9)
      from False r1(1) have rec: "fill_board_randomly rnd ?b1 k = Inr (False, g1', k1)"
        by simp
      from "3.IH"(2) [OF v' refl s1 rec refl refl refl s3 g rc e] v' s1 rec s3
      show ?thesis by simp
    qed
  qed
qed

section \<open>Counting empty cells\<close>

lemma count_update_zero:
  assumes "c < length xs" and "xs ! c \<noteq> (0::int)"
  shows "length (filter (\<lambda>v. v = 0) (xs[c := 0])) = Suc (length (filter (\<lambda>v. v = 0) xs))"
proof -
  have xs: "xs = take c xs @ xs ! c # drop (Suc c) xs"
    using assms(1) by (rule id_take_nth_drop)
  have "xs[c := 0] = take c xs @ 0 # drop (Suc c) xs"
    using assms(1) by (rule upd_conv_take_nth_drop)
  then have "length (filter (\<lambda>v. v = 0) (xs[c := 0]))
      = length (filter (\<lambda>v. v = 0) (take c xs)) + 1
        + length (filter (\<lambda>v. v = 0) (drop (Suc c) xs))"
    by simp
  moreover have "length (filter (\<lambda>v. v = 0) xs)
      = length (filter (\<lambda>v. v = 0) (take c xs))
        + length (filter (\<lambda>v. v = 0) (drop (Suc c) xs))"
    using assms(2) by (subst xs) simp
  ultimately show ?thesis by simp
qed

lemma empty_count_put:
  assumes "r < length g" and "c < length (g ! r)" and "g ! r ! c \<noteq> 0"
  shows "empty_count (put g r c 0) = Suc (empty_count g)"
proof -
  have g: "g = take r g @ g ! r # drop (Suc r) g"
    using assms(1) by (rule id_take_nth_drop)
  have "put g r c 0 = take r g @ (g ! r)[c := 0] # drop (Suc r) g"
    unfolding put_def using assms(1) by (rule upd_conv_take_nth_drop)
  then have "empty_count (put g r c 0)
      = length (filter (\<lambda>v. v = 0) (concat (take r g)))
        + length (filter (\<lambda>v. v = 0) ((g ! r)[c := 0]))
        + length (filter (\<lambda>v. v = 0) (concat (drop (Suc r) g)))"
    by (simp add: empty_count_def)
  moreover have "empty_count g
      = length (filter (\<lambda>v. v = 0) (concat (take r g)))
        + length (filter (\<lambda>v. v = 0) (g ! r))
        + length (filter (\<lambda>v. v = 0) (concat (drop (Suc r) g)))"
    unfolding empty_count_def by (subst g) simp
  ultimately show ?thesis
    using count_update_zero [OF assms(2,3)] by simp
qed

lemma empty_count_full:
  assumes "grid9x9 g" and "full g"
  shows "empty_count g = 0"
proof -
  have "v \<noteq> 0" if "v \<in> set (concat g)" for v
  proof -
    from that obtain row where row: "row \<in> set g" "v \<in> set row" by auto
    then obtain r where r: "r < 9" "row = g ! r"
      using assms(1) by (auto simp add: in_set_conv_nth grid9x9_length)
    with row(2) assms(1) obtain c where c: "c < 9" "v = g ! r ! c"
      by (auto simp add: in_set_conv_nth grid9x9_row_length)
    from assms(2) r(1) c(1) have "val g (r, c) \<noteq> 0"
      by (simp add: full_def list_all_iff all_cells_iff)
    with c(2) show ?thesis by (simp add: val_def)
  qed
  then show ?thesis
    by (auto simp add: empty_count_def filter_empty_conv)
qed

lemma remove_cells_count:
  "remove_cells g removed n picks = Some (Inr g') \<Longrightarrow> removed \<le> n \<Longrightarrow>
   empty_count g' + removed = empty_count g + n"
proof (induction picks arbitrary: g removed)
  case Nil
  then show ?case by (simp split: if_splits)
next
  case (Cons p picks)
  obtain row col where p: "p = (row, col)" by (cases p)
  show ?case
  proof (cases "removed < n")
    case False
    with Cons.prems show ?thesis by (simp add: p)
  next
    case True
    show ?thesis
    proof (cases "cell g row col")
      case (Inl e)
      with Cons.prems True show ?thesis by (simp add: p)
    next
      case (Inr v)
      then have rng: "row < length g" "col < length (g ! row)" "g ! row ! col = v"
        by (auto simp add: cell_def split: if_splits)
      show ?thesis
      proof (cases "v = 0")
        case True
        with Cons.prems \<open>removed < n\<close> Inr
        have "remove_cells g removed n picks = Some (Inr g')" by (simp add: p)
        from Cons.IH [OF this Cons.prems(2)] show ?thesis .
      next
        case False
        have s: "set_cell g row col 0 = Inr (put g row col 0)"
          using rng by (simp add: set_cell_def)
        with Cons.prems \<open>removed < n\<close> Inr False
        have "remove_cells (put g row col 0) (removed + 1) n picks = Some (Inr g')"
          by (simp add: p)
        from Cons.IH [OF this] \<open>removed < n\<close>
        have "empty_count g' + (removed + 1) = empty_count (put g row col 0) + n" by simp
        moreover have "empty_count (put g row col 0) = Suc (empty_count g)"
          using rng False by (intro empty_count_put) simp_all
        ultimately show ?thesis by simp
      qed
    qed
  qed
qed

lemma remove_cells_nothing_to_remove:
  assumes "\<forall>row \<in> set g. \<forall>v \<in> set row. v = 0" and "removed < n"
  shows "remove_cells g removed n picks \<noteq> Some (Inr g')"
proof (induction picks)
  case Nil
  show ?case using assms(2) by simp
next
  case (Cons p picks)
  obtain row col where p: "p = (row, col)" by (cases p)
  show ?case
  proof (cases "cell g row col")
    case (Inl e)
    with assms(2) show ?thesis by (simp add: p)
  next
    case (Inr v)
    then have "row < length g" "col < length (g ! row)" "g ! row ! col = v"
      by (auto simp add: cell_def split: if_splits)
    with assms(1) have "v = 0"
      by (metis nth_mem)
    with Inr assms(2) Cons show ?thesis by (simp add: p)
  qed
qed

lemma SudokuBoard_init_initial:
  "SudokuBoard_init (Some g) = Inr b \<Longrightarrow> initial_board b = g"
  by (auto simp add: SudokuBoard_init_def generate_solution_def
      split: sum.splits bool.splits prod.splits)

lemma cells_to_remove_positive:
  "0 < (case difficulty_map difficulty of None \<Rightarrow> 40 | Some n \<Rightarrow> n)"
  by (simp add: difficulty_map_def)

section \<open>Writing to a grid with its row objects\<close>

lemma view_fresh_rows: "view (fresh_rows g) = g"
  by (rule nth_equalityI) (simp_all add: view_def fresh_rows_def)

lemma distinct_fresh_rows: "distinct (fst (fresh_rows g))"
  by (simp add: fresh_rows_def)

lemma grid9x9_view_store:
  "grid9x9 (view h) \<Longrightarrow> grid9x9 (view (store_cell h r c v))"
  by (auto simp add: grid9x9_def view_def store_cell_def list_all_iff)

lemma grid9x9_view_length: "grid9x9 (view h) \<Longrightarrow> length (fst h) = 9"
  by (simp add: grid9x9_def view_def)

lemma grid9x9_view_row:
  assumes "grid9x9 (view h)" and "r < 9"
  shows "length (snd h (fst h ! r)) = 9"
proof -
  from assms have "length (view h ! r) = 9"
    by (rule grid9x9_row_length)
  with assms show ?thesis
    by (simp add: view_nth grid9x9_view_length)
qed

lemma set_cell_obj_9x9:
  "grid9x9 (view h) \<Longrightarrow> r < 9 \<Longrightarrow> c < 9 \<Longrightarrow> set_cell_obj h r c v = Inr (store_cell h r c v)"
  by (simp add: set_cell_obj_def grid9x9_view_length grid9x9_view_row)

lemma val_view: "fst p < length (fst h) \<Longrightarrow> val (view h) p = snd h (fst h ! fst p) ! snd p"
  by (simp add: val_def view_nth)

lemma val_view_store:
  assumes "grid9x9 (view h)" and "fst p < 9" and "snd p < 9"
  shows "val (view (store_cell h r c v)) p = (if p \<in> aliases h r c then v else val (view h) p)"
proof -
  from assms have len: "fst p < length (fst h)" "snd p < length (snd h (fst h ! fst p))"
    by (simp_all add: grid9x9_view_length grid9x9_view_row)
  show ?thesis
  proof (cases "fst h ! fst p = fst h ! r")
    case False
    with len show ?thesis
      by (simp add: val_def view_nth fst_store_cell snd_store_cell aliases_def)
  next
    case True
    with len show ?thesis
      by (cases "snd p = c")
        (simp_all add: val_def view_nth fst_store_cell snd_store_cell aliases_def)
  qed
qed

text \<open>The rows that are the object of row \<open>r\<close> hold what row \<open>r\<close> holds.\<close>

lemma val_alias:
  assumes "p \<in> aliases h r c" and "r < length (fst h)"
  shows "val (view h) p = val (view h) (r, c)"
  using assms by (simp add: aliases_def val_view)

lemma extends_store:
  assumes g: "grid9x9 (view h)" and rc: "r < 9" "c < 9" and e: "val (view h) (r, c) = 0"
    and ext: "extends (view (store_cell h r c n)) g'"
  shows "extends (view h) g'"
  unfolding extends_def list_all_iff
proof
  fix p
  assume p: "p \<in> set all_cells"
  then have pr: "fst p < 9" "snd p < 9"
    by (simp_all add: all_cells_iff)
  from ext p have
    *: "val (view (store_cell h r c n)) p = 0 \<or> val g' p = val (view (store_cell h r c n)) p"
    by (simp add: extends_def list_all_iff)
  show "val (view h) p = 0 \<or> val g' p = val (view h) p"
  proof (cases "p \<in> aliases h r c")
    case True
    with g rc e have "val (view h) p = 0"
      by (simp add: val_alias grid9x9_view_length)
    then show ?thesis ..
  next
    case False
    with * g pr show ?thesis
      by (simp add: val_view_store)
  qed
qed

text \<open>
  On every grid of nine by nine cells, whatever rows are shared, the search returns,
  and when it succeeds it leaves a full grid that keeps every given digit.
\<close>

lemma solve_obj_result:
  "grid9x9 (view h) \<Longrightarrow>
     \<exists>ok h'. solve_with_backtracking_obj h = Inr (ok, h') \<and> search_result_obj h ok h'"
  "grid9x9 (view h) \<Longrightarrow> r < 9 \<Longrightarrow> c < 9 \<Longrightarrow> val (view h) (r, c) = 0 \<Longrightarrow>
     \<exists>ok h'. try_numbers_obj h r c ns = Inr (ok, h') \<and> search_result_obj h ok h'"
proof (induction h and h r c ns rule: solve_with_backtracking_obj_try_numbers_obj.induct)
  case (1 board)
  note g = \<open>grid9x9 (view board)\<close>
  show ?case
  proof (cases "List.find (\<lambda>p. val (view board) p = 0) all_cells")
    case None
    then have "full (view board)"
      using g by (simp add: find_empty_cell_None [symmetric] find_empty_cell_9x9)
    with g None show ?thesis
      by (auto simp add: find_empty_cell_9x9 search_result_obj_def extends_refl)
  next
    case (Some p)
    obtain r c where p: "p = (r, c)" by (cases p)
    with Some g have e: "find_empty_cell (view board) = Inr (Some (r, c))"
      by (simp add: find_empty_cell_9x9)
    from find_empty_cell_Some_9x9 [OF g e]
    have rc: "r < 9" "c < 9" "val (view board) (r, c) = 0"
      by simp_all
    from "1.IH" [OF e refl refl g rc] e show ?thesis
      by auto
  qed
next
  case (2 board row col)
  then show ?case by (auto simp add: search_result_obj_def)
next
  case (3 board row col num nums)
  note g = \<open>grid9x9 (view board)\<close> and rc = \<open>row < 9\<close> \<open>col < 9\<close>
    and e = \<open>val (view board) (row, col) = 0\<close>
  have v: "is_valid_placement (view board) row col num
           = Inr (\<not> unit_holds (view board) row col num)"
    using g rc by (rule is_valid_placement_9x9)
  show ?case
  proof (cases "unit_holds (view board) row col num")
    case True
    with v have v': "is_valid_placement (view board) row col num = Inr False" by simp
    from "3.IH"(3) [OF v' refl g rc e] v' show ?thesis by auto
  next
    case False
    with v have v': "is_valid_placement (view board) row col num = Inr True" by simp
    let ?b1 = "store_cell board row col num"
    have s1: "set_cell_obj board row col num = Inr ?b1"
      using g rc by (rule set_cell_obj_9x9)
    have g1: "grid9x9 (view ?b1)" using g by (rule grid9x9_view_store)
    from "3.IH"(1) [OF v' refl s1 g1] obtain ok1 h1 where
      r1: "solve_with_backtracking_obj ?b1 = Inr (ok1, h1)" "search_result_obj ?b1 ok1 h1"
      by blast
    show ?thesis
    proof (cases ok1)
      case True
      with r1(2) have "extends (view ?b1) (view h1)"
        by (simp add: search_result_obj_def)
      then have "extends (view board) (view h1)"
        by (rule extends_store [OF g rc e])
      with True r1(2) have "search_result_obj board True h1"
        by (simp add: search_result_obj_def fst_store_cell)
      with True r1(1) v' s1 show ?thesis by auto
    next
      case False
      with r1(2) have h1: "h1 = ?b1" by (simp add: search_result_obj_def)
      from g rc e have "cell (view board) row col = Inr 0"
        by (simp add: cell_9x9 val_def)
      then have restored: "store_cell ?b1 row col 0 = board"
        by (simp add: store_cell_twice store_cell_same)
      have s3: "set_cell_obj h1 row col 0 = Inr board"
        using g1 rc h1 restored by (simp add: set_cell_obj_9x9)
      from False r1(1) h1 have rec: "solve_with_backtracking_obj ?b1 = Inr (False, h1)"
        by simp
      from "3.IH"(2) [OF v' refl s1 rec refl refl s3 g rc e] v' s1 rec s3
      show ?thesis by auto
    qed
  qed
qed

subsection \<open>Rows that are distinct objects\<close>

text \<open>
  When no two rows of the grid are one object, an assignment changes one cell, and the
  functions on row objects do what the functions on values do.
\<close>

lemma view_store_unshared:
  assumes "r < length (fst h)" and "\<forall>i<length (fst h). fst h ! i = fst h ! r \<longrightarrow> i = r"
  shows "view (store_cell h r c v) = put (view h) r c v"
proof (rule nth_equalityI)
  show "length (view (store_cell h r c v)) = length (put (view h) r c v)"
    by (simp add: view_def put_def store_cell_def)
next
  fix i
  assume "i < length (view (store_cell h r c v))"
  then have i: "i < length (fst h)"
    by (simp add: length_view fst_store_cell)
  with assms have "fst h ! i = fst h ! r \<longleftrightarrow> i = r"
    by blast
  with i assms(1) show "view (store_cell h r c v) ! i = put (view h) r c v ! i"
    by (simp add: view_nth fst_store_cell snd_store_cell put_def length_view)
qed

lemma view_store_distinct:
  assumes "distinct (fst h)" and "r < length (fst h)"
  shows "view (store_cell h r c v) = put (view h) r c v"
  using assms by (intro view_store_unshared) (simp_all add: nth_eq_iff_index_eq)

lemma set_cell_obj_distinct:
  assumes "distinct (fst h)"
  shows "set_cell (view h) r c v = map_sum id view (set_cell_obj h r c v)"
proof (cases "r < length (fst h)")
  case True
  with assms show ?thesis
    by (simp add: set_cell_def set_cell_obj_def length_view view_nth view_store_distinct)
next
  case False
  then show ?thesis
    by (simp add: set_cell_def set_cell_obj_def length_view)
qed

lemma solve_obj_distinct:
  "distinct (fst h) \<Longrightarrow>
     solve_with_backtracking (view h)
       = map_sum id (map_prod id view) (solve_with_backtracking_obj h)"
  "distinct (fst h) \<Longrightarrow>
     try_numbers (view h) r c ns = map_sum id (map_prod id view) (try_numbers_obj h r c ns)"
proof (induction h and h r c ns rule: solve_with_backtracking_obj_try_numbers_obj.induct)
  case (1 board)
  show ?case
  proof (cases "find_empty_cell (view board)")
    case (Inl e)
    then show ?thesis by simp
  next
    case (Inr found)
    show ?thesis
    proof (cases found)
      case None
      with Inr show ?thesis by simp
    next
      case (Some p)
      obtain row col where p: "p = (row, col)" by (cases p)
      with Inr Some have e: "find_empty_cell (view board) = Inr (Some (row, col))" by simp
      from "1.IH" [OF e refl refl "1.prems"] e show ?thesis by simp
    qed
  qed
next
  case (2 board row col)
  show ?case by simp
next
  case (3 board row col num nums)
  note d = \<open>distinct (fst board)\<close>
  show ?case
  proof (cases "is_valid_placement (view board) row col num")
    case (Inl e)
    then show ?thesis by simp
  next
    case (Inr ok)
    show ?thesis
    proof (cases ok)
      case False
      then have ok: "ok = False" by simp
      from "3.IH"(3) [OF Inr ok d] Inr ok show ?thesis by simp
    next
      case True
      then have ok: "ok = True" by simp
      show ?thesis
      proof (cases "set_cell_obj board row col num")
        case (Inl e)
        with set_cell_obj_distinct [OF d, of row col num] Inr ok show ?thesis by simp
      next
        case s1: (Inr b1)
        then have b1: "b1 = store_cell board row col num"
          by (rule set_cell_obj_Inr)
        with d have d1: "distinct (fst b1)"
          by (simp add: fst_store_cell)
        from set_cell_obj_distinct [OF d, of row col num] s1
        have s1': "set_cell (view board) row col num = Inr (view b1)" by simp
        note rec = "3.IH"(1) [OF Inr ok s1 d1]
        show ?thesis
        proof (cases "solve_with_backtracking_obj b1")
          case (Inl e)
          with rec Inr ok s1 s1' show ?thesis by simp
        next
          case r1: (Inr res)
          obtain ok1 b2 where res: "res = (ok1, b2)" by (cases res)
          show ?thesis
          proof (cases ok1)
            case True
            with rec r1 res Inr ok s1 s1' show ?thesis by simp
          next
            case False
            with r1 res have r1': "solve_with_backtracking_obj b1 = Inr (False, b2)" by simp
            then have "b2 = b1" by (rule solve_obj_failure_restores)
            with d1 have d2: "distinct (fst b2)" by simp
            from rec r1' have rec': "solve_with_backtracking (view b1) = Inr (False, view b2)"
              by simp
            show ?thesis
            proof (cases "set_cell_obj b2 row col 0")
              case (Inl e)
              with set_cell_obj_distinct [OF d2, of row col 0] Inr ok s1 s1' r1' rec'
              show ?thesis by simp
            next
              case s3: (Inr b3)
              then have "b3 = store_cell b2 row col 0"
                by (rule set_cell_obj_Inr)
              with d2 have d3: "distinct (fst b3)"
                by (simp add: fst_store_cell)
              from set_cell_obj_distinct [OF d2, of row col 0] s3
              have s3': "set_cell (view b2) row col 0 = Inr (view b3)" by simp
              from "3.IH"(2) [OF Inr ok s1 r1' refl refl s3 d3] Inr ok s1 s1' r1' rec' s3 s3'
              show ?thesis by simp
            qed
          qed
        qed
      qed
    qed
  qed
qed

subsection \<open>Units after an assignment\<close>

text \<open>Clearing a cell clears column \<open>c\<close> of every row that is the object of row \<open>r\<close>.\<close>

lemma units_consistent_clear:
  assumes g: "grid9x9 (view h)" and u: "units_consistent (view h)"
  shows "units_consistent (view (store_cell h r c 0))"
  unfolding units_consistent_def no_duplicate_def list_all_iff
proof (intro ballI)
  fix unit p q
  assume unit: "unit \<in> set unit_cells" and p: "p \<in> set unit" and q: "q \<in> set unit"
  from unit p have pr: "fst p < 9" "snd p < 9"
    using unit_cells_in_range [of unit p] by simp_all
  from unit q have qr: "fst q < 9" "snd q < 9"
    using unit_cells_in_range [of unit q] by simp_all
  from u unit p q have old: "p = q \<or> val (view h) p = 0 \<or> val (view h) p \<noteq> val (view h) q"
    by (simp add: units_consistent_def no_duplicate_def list_all_iff)
  have vp: "val (view (store_cell h r c 0)) p = (if p \<in> aliases h r c then 0 else val (view h) p)"
    using g pr by (rule val_view_store)
  have vq: "val (view (store_cell h r c 0)) q = (if q \<in> aliases h r c then 0 else val (view h) q)"
    using g qr by (rule val_view_store)
  show "p = q \<or> val (view (store_cell h r c 0)) p = 0
        \<or> val (view (store_cell h r c 0)) p \<noteq> val (view (store_cell h r c 0)) q"
  proof (cases "p \<in> aliases h r c")
    case True
    with vp show ?thesis by simp
  next
    case False
    with vp vq old show ?thesis
      by (cases "q \<in> aliases h r c") auto
  qed
qed

text \<open>
  A digit written to a row that is also another row of the grid stands twice in its
  column.
\<close>

lemma column_cells_unit: "c < 9 \<Longrightarrow> column_cells c \<in> set unit_cells"
  by (simp add: unit_cells_def)

lemma shared_row_duplicate:
  assumes g: "grid9x9 (view h)" and rc: "r < 9" "c < 9" and i: "i < 9" "i \<noteq> r"
    and same: "fst h ! i = fst h ! r" and v: "v \<noteq> 0"
  shows "\<not> units_consistent (view (store_cell h r c v))"
proof
  assume "units_consistent (view (store_cell h r c v))"
  with rc(2) have nd: "no_duplicate (view (store_cell h r c v)) (column_cells c)"
    by (simp add: units_consistent_def list_all_iff column_cells_unit)
  from g have len: "length (fst h) = 9" by (rule grid9x9_view_length)
  have "(r, c) \<in> aliases h r c" "(i, c) \<in> aliases h r c"
    using rc i same len by (simp_all add: aliases_def)
  with g rc i have "val (view (store_cell h r c v)) (r, c) = v"
    "val (view (store_cell h r c v)) (i, c) = v"
    by (simp_all add: val_view_store)
  moreover have "(r, c) \<in> set (column_cells c)" "(i, c) \<in> set (column_cells c)"
    using rc i by (simp_all add: column_cells_def)
  moreover from nd this
  have "(r, c) = (i, c) \<or> val (view (store_cell h r c v)) (r, c) = 0
        \<or> val (view (store_cell h r c v)) (r, c) \<noteq> val (view (store_cell h r c v)) (i, c)"
    unfolding no_duplicate_def list_all_iff by blast
  ultimately show False
    using v i(2) by simp
qed

lemma place_number_obj_9x9:
  assumes "grid9x9 (view (board_obj b))" and "row < 9" and "col < 9"
  shows "place_number_obj b row col v =
     Inr (if v \<noteq> 0 \<and> unit_holds (view (board_obj b)) row col v then (False, b)
          else (True, b\<lparr>board_obj := store_cell (board_obj b) row col v\<rparr>))"
  using assms by (simp add: place_number_obj_def set_cell_obj_9x9 is_valid_placement_9x9)

section \<open>The sentences of the hints\<close>

text \<open>
  The numbers in a hint are a row or column number from 1 to 9 and a digit from 1 to
  9, and \<open>str\<close> writes each of them as one character.
\<close>

lemma str_nat_digit: "n < 10 \<Longrightarrow> str_nat n = [''0123456789'' ! n]"
  by (subst str_nat.simps) (simp add: digit_char_def)

lemma str_int_digit:
  assumes "0 \<le> n" and "n < 10"
  shows "str_int n = [''0123456789'' ! nat n]"
proof -
  from assms have "nat n < 10" by simp
  then have "str_nat (nat n) = [''0123456789'' ! nat n]" by (rule str_nat_digit)
  with assms show ?thesis by (simp only: str_int_def) simp
qed

lemma hint_text_digits:
  assumes "r < 9" and "c < 9" and "1 \<le> n" and "n \<le> 9"
  shows "hint_text (NakedSingle r c n) =
           ''Naked Single: Cell ('' @ [''0123456789'' ! (r + 1)] @ '', ''
             @ [''0123456789'' ! (c + 1)] @ '') MUST be '' @ [''0123456789'' ! nat n]
             @ '' (only possibility)''"
    and "hint_text (HiddenSingleRow r c n) =
           ''Hidden Single in Row '' @ [''0123456789'' ! (r + 1)] @ '': Number ''
             @ [''0123456789'' ! nat n] @ '' can only go at ('' @ [''0123456789'' ! (r + 1)]
             @ '', '' @ [''0123456789'' ! (c + 1)] @ '')''"
    and "hint_text (HiddenSingleColumn r c n) =
           ''Hidden Single in Column '' @ [''0123456789'' ! (c + 1)] @ '': Number ''
             @ [''0123456789'' ! nat n] @ '' can only go at ('' @ [''0123456789'' ! (r + 1)]
             @ '', '' @ [''0123456789'' ! (c + 1)] @ '')''"
proof -
  from assms have s: "str_nat (r + 1) = [''0123456789'' ! (r + 1)]"
    "str_nat (c + 1) = [''0123456789'' ! (c + 1)]"
    "str_int n = [''0123456789'' ! nat n]"
    by (simp_all only: str_nat_digit str_int_digit)
  show "hint_text (NakedSingle r c n) =
           ''Naked Single: Cell ('' @ [''0123456789'' ! (r + 1)] @ '', ''
             @ [''0123456789'' ! (c + 1)] @ '') MUST be '' @ [''0123456789'' ! nat n]
             @ '' (only possibility)''"
    by (simp only: hint_text.simps s)
  show "hint_text (HiddenSingleRow r c n) =
           ''Hidden Single in Row '' @ [''0123456789'' ! (r + 1)] @ '': Number ''
             @ [''0123456789'' ! nat n] @ '' can only go at ('' @ [''0123456789'' ! (r + 1)]
             @ '', '' @ [''0123456789'' ! (c + 1)] @ '')''"
    by (simp only: hint_text.simps s)
  show "hint_text (HiddenSingleColumn r c n) =
           ''Hidden Single in Column '' @ [''0123456789'' ! (c + 1)] @ '': Number ''
             @ [''0123456789'' ! nat n] @ '' can only go at ('' @ [''0123456789'' ! (r + 1)]
             @ '', '' @ [''0123456789'' ! (c + 1)] @ '')''"
    by (simp only: hint_text.simps s)
qed

lemma naked_single_digits:
  assumes "grid9x9 (board b)" and "naked_single b r c n"
  shows "r < 9 \<and> c < 9 \<and> 1 \<le> n \<and> n \<le> 9"
proof -
  from assms have rc: "r < 9" "c < 9" and "brute_force_candidates (board b) r c = {n}"
    by (simp_all add: naked_single_9x9 all_cells_iff)
  with brute_force_candidates_digits [of "board b" r c] have "n \<in> {1..9}" by simp
  with rc show ?thesis by simp
qed

lemma hidden_single_in_row_digits:
  assumes "hidden_single_in_row b r c n"
  shows "r < 9 \<and> c < 9 \<and> 1 \<le> n \<and> n \<le> 9"
proof -
  from assms have "c \<in> set (filter (\<lambda>c'. is_candidate b r c' n) [0..<9])"
    by (simp add: hidden_single_in_row_def)
  then have "c < 9" by simp
  with assms show ?thesis by (simp add: hidden_single_in_row_def)
qed

lemma hidden_single_in_column_digits:
  assumes "hidden_single_in_column b r c n"
  shows "r < 9 \<and> c < 9 \<and> 1 \<le> n \<and> n \<le> 9"
proof -
  from assms have "r \<in> set (filter (\<lambda>r'. is_candidate b r' c n) [0..<9])"
    by (simp add: hidden_single_in_column_def)
  then have "r < 9" by simp
  with assms show ?thesis by (simp add: hidden_single_in_column_def)
qed

section \<open>Placing a digit\<close>

text \<open>
  Claim C1, as the code has it.  On a board of nine by nine cells and for a cell
  \<open>(row, col)\<close> with \<open>row, col < 9\<close>: \<open>place_number\<close> with a digit \<open>v\<close> in 1..9
  returns \<open>True\<close> and stores \<open>v\<close> in the cell exactly when no cell of the row, the
  column or the 3x3 box holds \<open>v\<close>, the target cell counted with them; otherwise
  it returns \<open>False\<close> and the board is the one it was; and with 0 it always returns
  \<open>True\<close> and clears the cell.
\<close>

theorem place_number_contract:
  assumes "grid9x9 (board b)" and "row < 9" and "col < 9"
  shows "(1 \<le> v \<and> v \<le> 9 \<and> \<not> unit_holds (board b) row col v \<longrightarrow>
            place_number b row col v = Inr (True, b\<lparr>board := put (board b) row col v\<rparr>)
            \<and> put (board b) row col v ! row ! col = v)
       \<and> (1 \<le> v \<and> v \<le> 9 \<and> unit_holds (board b) row col v \<longrightarrow>
            place_number b row col v = Inr (False, b))
       \<and> place_number b row col 0 = Inr (True, b\<lparr>board := put (board b) row col 0\<rparr>)
       \<and> put (board b) row col 0 ! row ! col = 0"
  using assms
  by (simp add: place_number_zero_9x9 place_number_digit_9x9 val_put_same)

theorem place_number_contract_witness:
  "grid9x9 (board clue_board) \<and> (0::nat) < 9 \<and> (2::nat) < 9
   \<and> \<not> unit_holds (board clue_board) 0 2 7
   \<and> place_number clue_board 0 2 7
       = Inr (True, clue_board\<lparr>board := put (board clue_board) 0 2 7\<rparr>)
   \<and> unit_holds (board clue_board) 0 2 5
   \<and> place_number clue_board 0 2 5 = Inr (False, clue_board)
   \<and> place_number clue_board 0 2 0
       = Inr (True, clue_board\<lparr>board := put (board clue_board) 0 2 0\<rparr>)"
proof -
  have g: "grid9x9 (board clue_board)" by code_simp
  have free: "\<not> unit_holds (board clue_board) 0 2 7" by code_simp
  have held: "unit_holds (board clue_board) 0 2 5" by code_simp
  from place_number_contract [OF g, of 0 2 7] place_number_contract [OF g, of 0 2 5] g free held
  show ?thesis by simp
qed

text \<open>
  The claim as the specification words it fails: the check of the code counts the
  target cell too, so a digit is rejected in the cell that already holds it although
  no \<^emph>\<open>other\<close> cell of its row, column or box does.
\<close>

theorem place_number_own_digit_rejected:
  "\<not> other_cell_holds (board clue_board) 0 0 5
   \<and> place_number clue_board 0 0 5 = Inr (False, clue_board)"
  by code_simp

text \<open>
  Claim C4, as the code has it.  The assignment of \<open>place_number\<close> writes the row
  object, so it shows in every row of the grid that is the same list object.  On a
  board of nine by nine cells in which none of the 27 units holds a non-zero digit
  twice, after a call of \<open>place_number\<close> at a cell \<open>(row, col)\<close> with \<open>row, col < 9\<close>
  that returns \<open>True\<close>, again none of the 27 units holds a non-zero digit twice if and
  only if the call cleared the cell or the row written is no other row of the grid.
  So the claim holds on every such board whose nine rows are nine distinct list
  objects.
\<close>

theorem place_number_keeps_units:
  assumes "grid9x9 (view (board_obj b))" and "row < 9" and "col < 9"
    and "units_consistent (view (board_obj b))"
    and "place_number_obj b row col v = Inr (True, b')"
  shows "(units_consistent (view (board_obj b')) \<longleftrightarrow>
            v = 0 \<or> (\<forall>i<9. fst (board_obj b) ! i = fst (board_obj b) ! row \<longrightarrow> i = row))
         \<and> (distinct (fst (board_obj b)) \<longrightarrow> units_consistent (view (board_obj b')))"
proof -
  from assms(1,2,3,5)
  have free: "v = 0 \<or> \<not> unit_holds (view (board_obj b)) row col v"
    and b': "b' = b\<lparr>board_obj := store_cell (board_obj b) row col v\<rparr>"
    by (auto simp add: place_number_obj_9x9 split: if_splits)
  from assms(1) have len: "length (fst (board_obj b)) = 9"
    by (rule grid9x9_view_length)
  have unshared: "units_consistent (view (store_cell (board_obj b) row col v))"
    if "\<forall>i<9. fst (board_obj b) ! i = fst (board_obj b) ! row \<longrightarrow> i = row"
  proof -
    from that len assms(2)
    have "view (store_cell (board_obj b) row col v) = put (view (board_obj b)) row col v"
      by (intro view_store_unshared) simp_all
    moreover have "units_consistent (put (view (board_obj b)) row col v)"
      using assms(1,2,3,4) free by (rule units_consistent_put)
    ultimately show ?thesis by simp
  qed
  have cleared: "units_consistent (view (store_cell (board_obj b) row col v))" if "v = 0"
    using that assms(1,4) by (simp add: units_consistent_clear)
  have shared: "\<not> units_consistent (view (store_cell (board_obj b) row col v))"
    if "v \<noteq> 0" and "\<not> (\<forall>i<9. fst (board_obj b) ! i = fst (board_obj b) ! row \<longrightarrow> i = row)"
  proof -
    from that(2) obtain i where "i < 9" "i \<noteq> row"
      "fst (board_obj b) ! i = fst (board_obj b) ! row"
      by blast
    with assms(1,2,3) that(1) show ?thesis
      by (intro shared_row_duplicate)
  qed
  have "\<forall>i<9. fst (board_obj b) ! i = fst (board_obj b) ! row \<longrightarrow> i = row"
    if "distinct (fst (board_obj b))"
    using that len assms(2) by (simp add: nth_eq_iff_index_eq)
  with unshared cleared shared b' show ?thesis
    by auto
qed

theorem place_number_keeps_units_witness:
  "distinct (fst (board_obj clue_board_obj))
   \<and> grid9x9 (view (board_obj clue_board_obj)) \<and> (0::nat) < 9 \<and> (2::nat) < 9
   \<and> units_consistent (view (board_obj clue_board_obj))
   \<and> place_number_obj clue_board_obj 0 2 7
       = Inr (True, clue_board_obj\<lparr>board_obj := store_cell (board_obj clue_board_obj) 0 2 7\<rparr>)
   \<and> units_consistent (view (store_cell (board_obj clue_board_obj) 0 2 7))"
proof -
  have d: "distinct (fst (board_obj clue_board_obj))" by code_simp
  have g: "grid9x9 (view (board_obj clue_board_obj))" by code_simp
  have u: "units_consistent (view (board_obj clue_board_obj))" by code_simp
  have f: "\<not> unit_holds (view (board_obj clue_board_obj)) 0 2 7" by code_simp
  have p: "place_number_obj clue_board_obj 0 2 7
       = Inr (True, clue_board_obj\<lparr>board_obj := store_cell (board_obj clue_board_obj) 0 2 7\<rparr>)"
    using f by (simp add: place_number_obj_9x9 [OF g])
  have lt: "(0::nat) < 9" "(2::nat) < 9" by simp_all
  from place_number_keeps_units [OF g lt u p, THEN conjunct2, THEN mp, OF d]
  have "units_consistent (view (store_cell (board_obj clue_board_obj) 0 2 7))"
    by simp
  with d g u p lt show ?thesis by simp
qed

text \<open>
  The claim as the specification words it, for every board, fails on a board whose
  rows are one list object, as \<open>SudokuBoard([[0] * 9] * 9)\<close> is: placing 5 at the first
  cell succeeds, the assignment writes the one row, and the first column then holds
  nine 5s.
\<close>

theorem place_number_shared_rows_duplicate:
  "grid9x9 (view (board_obj shared_empty_board))
   \<and> units_consistent (view (board_obj shared_empty_board))
   \<and> place_number_obj shared_empty_board 0 0 5
       = Inr (True, shared_empty_board
                \<lparr>board_obj := store_cell (board_obj shared_empty_board) 0 0 5\<rparr>)
   \<and> view (store_cell (board_obj shared_empty_board) 0 0 5)
       = replicate 9 [5, 0, 0, 0, 0, 0, 0, 0, 0]
   \<and> \<not> units_consistent (view (store_cell (board_obj shared_empty_board) 0 0 5))"
proof -
  have g: "grid9x9 (view (board_obj shared_empty_board))" by code_simp
  have u: "units_consistent (view (board_obj shared_empty_board))" by code_simp
  have f: "\<not> unit_holds (view (board_obj shared_empty_board)) 0 0 5" by code_simp
  have p: "place_number_obj shared_empty_board 0 0 5
       = Inr (True, shared_empty_board
                \<lparr>board_obj := store_cell (board_obj shared_empty_board) 0 0 5\<rparr>)"
    using f by (simp add: place_number_obj_9x9 [OF g])
  have v: "view (store_cell (board_obj shared_empty_board) 0 0 5)
       = replicate 9 [5, 0, 0, 0, 0, 0, 0, 0, 0]" by code_simp
  have n: "\<not> units_consistent (view (store_cell (board_obj shared_empty_board) 0 0 5))"
    by code_simp
  from g u p v n show ?thesis by simp
qed

text \<open>
  Claim C10.  \<open>place_number\<close> looks neither at the value the target cell holds nor at
  \<open>initial_board\<close>.  On a board of nine by nine cells and for \<open>row, col < 9\<close>:
  with 0 it returns \<open>True\<close> and clears the cell, whatever \<open>initial_board\<close> holds
  there; and with a digit \<open>v\<close> in 1..9 it overwrites a cell that holds another
  non-zero digit whenever no other cell of the row, the column or the box holds \<open>v\<close>.
  Only the field \<open>board\<close> changes.
\<close>

theorem place_number_no_protection:
  assumes "grid9x9 (board b)" and "row < 9" and "col < 9"
  shows "place_number b row col 0 = Inr (True, b\<lparr>board := put (board b) row col 0\<rparr>)
       \<and> put (board b) row col 0 ! row ! col = 0
       \<and> (1 \<le> v \<and> v \<le> 9 \<and> board b ! row ! col \<noteq> 0 \<and> board b ! row ! col \<noteq> v
            \<and> \<not> other_cell_holds (board b) row col v \<longrightarrow>
            place_number b row col v = Inr (True, b\<lparr>board := put (board b) row col v\<rparr>)
            \<and> put (board b) row col v ! row ! col = v)"
proof -
  have "\<not> unit_holds (board b) row col v"
    if "board b ! row ! col \<noteq> v" "\<not> other_cell_holds (board b) row col v"
    using that assms(3) by (simp add: unit_holds_iff_other val_def)
  with assms show ?thesis
    by (simp add: place_number_zero_9x9 place_number_digit_9x9 val_put_same)
qed

theorem place_number_no_protection_witness:
  "grid9x9 (board clue_board) \<and> (0::nat) < 9
   \<and> initial_board clue_board ! 0 ! 0 = 5
   \<and> place_number clue_board 0 0 0
       = Inr (True, clue_board\<lparr>board := put (board clue_board) 0 0 0\<rparr>)
   \<and> board clue_board ! 0 ! 0 = 5
   \<and> \<not> other_cell_holds (board clue_board) 0 0 7
   \<and> place_number clue_board 0 0 7
       = Inr (True, clue_board\<lparr>board := put (board clue_board) 0 0 7\<rparr>)
   \<and> put (board clue_board) 0 0 7 ! 0 ! 0 = 7"
proof -
  have g: "grid9x9 (board clue_board)" by code_simp
  have i: "initial_board clue_board ! 0 ! 0 = 5" by code_simp
  have c: "board clue_board ! 0 ! 0 = 5" by code_simp
  have o: "\<not> other_cell_holds (board clue_board) 0 0 7" by code_simp
  from place_number_no_protection [OF g, of 0 0 7] g i c o
  show ?thesis by simp
qed

section \<open>The backtracking search\<close>

text \<open>
  Claim C7.  When \<open>_solve_with_backtracking\<close> returns \<open>False\<close>, the grid after the
  call is the grid before the call, and the same holds for the randomized fill of
  the generator, whatever the shuffles are.  Both hold for every list of lists.
\<close>

theorem failed_search_restores_grid:
  "(solve_with_backtracking g = Inr (False, g') \<longrightarrow> g' = g)
   \<and> (fill_board_randomly rnd h k = Inr (False, h', k') \<longrightarrow> h' = h)"
  by (blast dest: solve_failure_restores fill_failure_restores)

theorem failed_search_restores_grid_witness:
  "solve_with_backtracking stuck_grid = Inr (False, stuck_grid)
   \<and> fill_board_randomly (\<lambda>k. [2, 1, 4, 3, 6, 5, 8, 7, 9]) stuck_grid 0
       = Inr (False, stuck_grid, 3)"
proof -
  have s: "solve_with_backtracking stuck_grid = Inr (False, stuck_grid)"
    by code_simp
  have f: "fill_board_randomly (\<lambda>k. [2, 1, 4, 3, 6, 5, 8, 7, 9]) stuck_grid 0
       = Inr (False, stuck_grid, 3)"
    by code_simp
  from failed_search_restores_grid
    [of stuck_grid stuck_grid "\<lambda>k. [2, 1, 4, 3, 6, 5, 8, 7, 9]" stuck_grid 0 stuck_grid 3] s f
  show ?thesis by simp
qed

lemma empty_grid_has_completion: "valid_completion empty_grid solved_grid"
  by code_simp

lemma SudokuBoard_init_obj_solution:
  assumes "grid9x9 (view h)" and "SudokuBoard_init_obj (Some h) = Inr b"
    and "solution_obj b = Some s"
  shows "initial_board_obj b = h \<and> solve_with_backtracking_obj h = Inr (True, s)"
proof -
  from solve_obj_result(1) [OF assms(1)] obtain ok h' where
    r: "solve_with_backtracking_obj h = Inr (ok, h')" by blast
  with assms(2,3) show ?thesis
    by (cases ok) (auto simp add: SudokuBoard_init_obj_def generate_solution_obj_def)
qed

text \<open>
  Claim C2, as the code has it.  The search checks each digit it places against the
  grid, and never the given digits against each other; and an assignment to a cell
  writes every row that is the same list object.  On every grid of nine by nine cells
  the search returns without an error, and when it succeeds the grid it leaves is
  full and agrees with the given grid on every non-zero cell of it; so the solution
  that \<open>__init__\<close> stores is full and extends the initial grid.  If the nine rows of
  the grid are nine distinct list objects, the search succeeds whenever the grid has a
  valid completion; if moreover no unit of the given grid holds a non-zero digit
  twice, the grid it leaves satisfies \<open>is_valid_complete\<close>; and if moreover the given
  cells lie between 0 and 9, it is a valid completion, so that success is then
  equivalent to the existence of one.  The empty grid of nine new rows is always
  solved, with a grid that satisfies \<open>is_valid_complete\<close>.
\<close>

theorem solve_with_backtracking_correct:
  assumes "grid9x9 (view h)"
  shows "(\<exists>ok h'. solve_with_backtracking_obj h = Inr (ok, h')
            \<and> (ok \<longrightarrow> grid9x9 (view h') \<and> full (view h') \<and> extends (view h) (view h'))
            \<and> (distinct (fst h) \<longrightarrow>
                 ((\<exists>g. valid_completion (view h) g) \<longrightarrow> ok)
                 \<and> (ok \<and> units_consistent (view h) \<longrightarrow>
                      is_valid_complete \<lparr>board = view h', initial_board = i, solution = s\<rparr>
                        = Inr True)
                 \<and> (ok \<and> units_consistent (view h) \<and> cells_between 0 9 (view h) \<longrightarrow>
                      valid_completion (view h) (view h'))))
       \<and> (\<forall>b sol. SudokuBoard_init_obj (Some h) = Inr b \<and> solution_obj b = Some sol \<longrightarrow>
            full (view sol) \<and> extends (view (initial_board_obj b)) (view sol))
       \<and> (\<exists>h'. solve_with_backtracking_obj (fresh_rows empty_grid) = Inr (True, h')
            \<and> is_valid_complete \<lparr>board = view h', initial_board = i, solution = s\<rparr>
                = Inr True)"
proof -
  have main: "\<exists>ok h'. solve_with_backtracking_obj h = Inr (ok, h')
            \<and> (ok \<longrightarrow> grid9x9 (view h') \<and> full (view h') \<and> extends (view h) (view h'))
            \<and> (distinct (fst h) \<longrightarrow>
                 ((\<exists>g. valid_completion (view h) g) \<longrightarrow> ok)
                 \<and> (ok \<and> units_consistent (view h) \<longrightarrow>
                      is_valid_complete \<lparr>board = view h', initial_board = i, solution = s\<rparr>
                        = Inr True)
                 \<and> (ok \<and> units_consistent (view h) \<and> cells_between 0 9 (view h) \<longrightarrow>
                      valid_completion (view h) (view h')))"
    if g: "grid9x9 (view h)" for h
  proof -
    from solve_obj_result(1) [OF g] obtain ok h' where
      r: "solve_with_backtracking_obj h = Inr (ok, h')" "search_result_obj h ok h'"
      by blast
    have any: "grid9x9 (view h') \<and> full (view h') \<and> extends (view h) (view h')" if "ok"
      using that r(2) by (simp add: search_result_obj_def)
    have "((\<exists>g. valid_completion (view h) g) \<longrightarrow> ok)
          \<and> (ok \<and> units_consistent (view h) \<longrightarrow>
               is_valid_complete \<lparr>board = view h', initial_board = i, solution = s\<rparr>
                 = Inr True)
          \<and> (ok \<and> units_consistent (view h) \<and> cells_between 0 9 (view h) \<longrightarrow>
               valid_completion (view h) (view h'))"
      if d: "distinct (fst h)"
    proof -
      from solve_obj_distinct(1) [OF d] r(1)
      have v: "solve_with_backtracking (view h) = Inr (ok, view h')" by simp
      from solve_sound_complete(1) [OF g] v
      have sr: "search_result (view h) ok (view h')"
        and complete: "\<not> ok \<longrightarrow> (\<forall>g. \<not> valid_completion (view h) g)"
        by auto
      have "is_valid_complete \<lparr>board = view h', initial_board = i, solution = s\<rparr> = Inr True"
        if "ok" "units_consistent (view h)"
        using that sr by (intro is_valid_complete_full) (simp_all add: search_result_def)
      moreover have "valid_completion (view h) (view h')"
        if "ok" "units_consistent (view h)" "cells_between 0 9 (view h)"
        using that sr by (simp add: search_result_def valid_completion_def)
      ultimately show ?thesis using complete by blast
    qed
    with r(1) any show ?thesis by blast
  qed
  have stored: "full (view sol) \<and> extends (view (initial_board_obj b)) (view sol)"
    if "SudokuBoard_init_obj (Some h) = Inr b" "solution_obj b = Some sol" for b sol
  proof -
    from SudokuBoard_init_obj_solution [OF assms that]
    have "initial_board_obj b = h" "solve_with_backtracking_obj h = Inr (True, sol)"
      by simp_all
    with main [OF assms] show ?thesis by auto
  qed
  have e: "grid9x9 (view (fresh_rows empty_grid))"
    "units_consistent (view (fresh_rows empty_grid))"
    "valid_completion (view (fresh_rows empty_grid)) solved_grid"
    by (simp_all only: view_fresh_rows empty_grid_has_completion) code_simp+
  from main [OF e(1)] e(2,3) distinct_fresh_rows [of empty_grid]
  have "\<exists>h'. solve_with_backtracking_obj (fresh_rows empty_grid) = Inr (True, h')
            \<and> is_valid_complete \<lparr>board = view h', initial_board = i, solution = s\<rparr>
                = Inr True"
    by auto
  with main [OF assms] stored show ?thesis by blast
qed

theorem solve_with_backtracking_correct_witness:
  "grid9x9 (view (fresh_rows puzzle_grid)) \<and> distinct (fst (fresh_rows puzzle_grid))
   \<and> valid_completion (view (fresh_rows puzzle_grid)) solved_grid
   \<and> units_consistent (view (fresh_rows puzzle_grid))
   \<and> cells_between 0 9 (view (fresh_rows puzzle_grid))
   \<and> map_sum id (map_prod id view) (solve_with_backtracking_obj (fresh_rows puzzle_grid))
       = Inr (True, solved_grid)
   \<and> full solved_grid \<and> extends (view (fresh_rows puzzle_grid)) solved_grid
   \<and> is_valid_complete
        \<lparr>board = solved_grid, initial_board = puzzle_grid, solution = Some solved_grid\<rparr>
       = Inr True
   \<and> (\<exists>b sol. SudokuBoard_init_obj (Some (fresh_rows puzzle_grid)) = Inr b
          \<and> solution_obj b = Some sol \<and> view (initial_board_obj b) = puzzle_grid
          \<and> view sol = solved_grid \<and> full (view sol)
          \<and> extends (view (initial_board_obj b)) (view sol))"
proof -
  have g: "grid9x9 (view (fresh_rows puzzle_grid))" by code_simp
  have d: "distinct (fst (fresh_rows puzzle_grid))" by code_simp
  have h: "valid_completion (view (fresh_rows puzzle_grid)) solved_grid" by code_simp
  have u: "units_consistent (view (fresh_rows puzzle_grid))" by code_simp
  have c: "cells_between 0 9 (view (fresh_rows puzzle_grid))" by code_simp
  have r: "map_sum id (map_prod id view) (solve_with_backtracking_obj (fresh_rows puzzle_grid))
       = Inr (True, solved_grid)" by code_simp
  note correct = solve_with_backtracking_correct [OF g, of puzzle_grid "Some solved_grid"]
  from correct [THEN conjunct1] r u d
  have res: "full solved_grid \<and> extends (view (fresh_rows puzzle_grid)) solved_grid
     \<and> is_valid_complete
        \<lparr>board = solved_grid, initial_board = puzzle_grid, solution = Some solved_grid\<rparr>
       = Inr True"
    by auto
  from r obtain sol where
    s: "solve_with_backtracking_obj (fresh_rows puzzle_grid) = Inr (True, sol)"
    and v: "view sol = solved_grid"
    by (cases "solve_with_backtracking_obj (fresh_rows puzzle_grid)") auto
  let ?b = "\<lparr>board_obj = fresh_rows puzzle_grid, initial_board_obj = fresh_rows puzzle_grid,
             solution_obj = Some sol\<rparr>"
  from s have i: "SudokuBoard_init_obj (Some (fresh_rows puzzle_grid)) = Inr ?b"
    by (simp add: SudokuBoard_init_obj_def generate_solution_obj_def Let_def
        del: solve_with_backtracking_obj.simps)
  then have "SudokuBoard_init_obj (Some (fresh_rows puzzle_grid)) = Inr ?b
             \<and> solution_obj ?b = Some sol"
    by simp
  then have "full (view sol) \<and> extends (view (initial_board_obj ?b)) (view sol)"
    by (rule correct [THEN conjunct2, THEN conjunct1, THEN spec, THEN spec, THEN mp])
  with i v have "\<exists>b sol. SudokuBoard_init_obj (Some (fresh_rows puzzle_grid)) = Inr b
          \<and> solution_obj b = Some sol \<and> view (initial_board_obj b) = puzzle_grid
          \<and> view sol = solved_grid \<and> full (view sol)
          \<and> extends (view (initial_board_obj b)) (view sol)"
    by (intro exI [of _ ?b] exI [of _ sol]) (simp add: view_fresh_rows)
  with g d h u c r res show ?thesis by simp
qed

text \<open>
  The claim as the specification words it fails twice.  On a full grid that breaks
  the rules there is no empty cell, so the search succeeds at once, and the grid it
  leaves does not satisfy \<open>is_valid_complete\<close>.  And on the grid \<open>[[0] * 9] * 9\<close>,
  nine references to one row, which has a valid completion, the search fills the
  one row with 1 to 9 and succeeds, and the nine equal rows it leaves do not satisfy
  \<open>is_valid_complete\<close>.
\<close>

theorem solve_accepts_inconsistent_grid:
  "grid9x9 (view (fresh_rows ones_grid)) \<and> cells_between 0 9 (view (fresh_rows ones_grid))
   \<and> distinct (fst (fresh_rows ones_grid))
   \<and> map_sum id (map_prod id view) (solve_with_backtracking_obj (fresh_rows ones_grid))
       = Inr (True, ones_grid)
   \<and> is_valid_complete \<lparr>board = ones_grid, initial_board = ones_grid, solution = None\<rparr>
       = Inr False
   \<and> \<not> valid_completion ones_grid ones_grid
   \<and> grid9x9 (view shared_empty_grid) \<and> units_consistent (view shared_empty_grid)
   \<and> valid_completion (view shared_empty_grid) solved_grid
   \<and> map_sum id (map_prod id view) (solve_with_backtracking_obj shared_empty_grid)
       = Inr (True, replicate 9 [1, 2, 3, 4, 5, 6, 7, 8, 9])
   \<and> is_valid_complete
        \<lparr>board = replicate 9 [1, 2, 3, 4, 5, 6, 7, 8, 9],
         initial_board = view shared_empty_grid, solution = None\<rparr>
       = Inr False"
  by code_simp

section \<open>Constructing a board\<close>

lemma SudokuBoard_init_9x9:
  assumes "grid9x9 g"
  shows "\<exists>b. SudokuBoard_init (Some g) = Inr b \<and> board b = g \<and> initial_board b = g"
proof -
  from solve_sound_complete(1) [OF assms] obtain ok g' where
    "solve_with_backtracking g = Inr (ok, g')" by blast
  then show ?thesis
    by (cases ok) (simp_all add: SudokuBoard_init_def generate_solution_def)
qed

text \<open>
  Claim C3, as the code has it.  The constructor does not look at the shape or at
  the values of its argument.  For every grid of nine by nine cells, and so for
  every well-formed grid, it produces a Board whose \<open>board\<close> and \<open>initial_board\<close>
  are the grid, and with no argument it produces a Board on the empty grid.
\<close>

theorem SudokuBoard_init_produces_board:
  "(grid9x9 g \<longrightarrow>
      (\<exists>b. SudokuBoard_init (Some g) = Inr b \<and> board b = g \<and> initial_board b = g))
   \<and> (well_formed g \<longrightarrow>
      (\<exists>b. SudokuBoard_init (Some g) = Inr b \<and> board b = g \<and> initial_board b = g))
   \<and> (\<exists>b. SudokuBoard_init None = Inr b \<and> board b = empty_grid
         \<and> initial_board b = empty_grid)"
proof -
  have "grid9x9 empty_grid" by code_simp
  from SudokuBoard_init_9x9 [OF this]
  have "\<exists>b. SudokuBoard_init None = Inr b \<and> board b = empty_grid
         \<and> initial_board b = empty_grid"
    by (simp add: SudokuBoard_init_def)
  then show ?thesis
    using SudokuBoard_init_9x9 [of g] by (simp add: well_formed_def)
qed

theorem SudokuBoard_init_produces_board_witness:
  "grid9x9 puzzle_grid \<and> well_formed puzzle_grid
   \<and> SudokuBoard_init (Some puzzle_grid)
       = Inr \<lparr>board = puzzle_grid, initial_board = puzzle_grid,
              solution = Some solved_grid\<rparr>"
proof -
  have g: "grid9x9 puzzle_grid" by code_simp
  have w: "well_formed puzzle_grid" by code_simp
  have r: "SudokuBoard_init (Some puzzle_grid)
       = Inr \<lparr>board = puzzle_grid, initial_board = puzzle_grid,
              solution = Some solved_grid\<rparr>" by code_simp
  from SudokuBoard_init_produces_board [of puzzle_grid] g w r
  show ?thesis by simp
qed

text \<open>
  The claim as the specification words it fails: a grid with a value outside 0..9 is
  malformed, and the constructor makes a Board of it.  A grid is turned down only
  when the search happens to index outside it, as on the grid with no rows.
\<close>

theorem SudokuBoard_init_accepts_malformed:
  "\<not> well_formed tens_grid
   \<and> SudokuBoard_init (Some tens_grid)
       = Inr \<lparr>board = tens_grid, initial_board = tens_grid, solution = Some tens_grid\<rparr>"
  by code_simp

lemma SudokuBoard_init_no_rows: "SudokuBoard_init (Some []) = Inl IndexError"
  by code_simp

section \<open>Candidates of a cell\<close>

text \<open>
  Claim C5.  On a board of nine by nine cells and for \<open>row, col < 9\<close>,
  \<open>get_possibilities\<close> returns the empty set for a filled cell, and for an empty cell
  the digits 1..9 without every value of row \<open>row\<close>, of column \<open>col\<close> and of the 3x3
  box whose origin is \<open>(row div 3 * 3, col div 3 * 3)\<close>; this is the set the
  brute-force derivation of the specification gives.  The method has no assignment
  to the board: it is a function of the board to the set, and nothing else.
\<close>

theorem get_possibilities_candidates:
  assumes "grid9x9 (board b)" and "row < 9" and "col < 9"
  shows "(board b ! row ! col \<noteq> 0 \<longrightarrow> get_possibilities b row col = Inr {})
       \<and> (board b ! row ! col = 0 \<longrightarrow>
            get_possibilities b row col =
              Inr ({1..9} - set (board b ! row) - {board b ! r ! col | r. r < 9}
                   - {board b ! r ! c | r c.
                        row div 3 * 3 \<le> r \<and> r < row div 3 * 3 + 3
                        \<and> col div 3 * 3 \<le> c \<and> c < col div 3 * 3 + 3}))
       \<and> get_possibilities b row col = Inr (brute_force_candidates (board b) row col)"
proof -
  have c: "val (board b) ` set (column_cells col) = {board b ! r ! col | r. r < 9}"
    by (force simp add: column_cells_def val_def image_iff)
  show ?thesis
    unfolding get_possibilities_9x9 [OF assms]
    by (simp add: brute_force_candidates_def c val_block_cells)
qed

theorem get_possibilities_candidates_witness:
  "grid9x9 (board dead_cell_board) \<and> (4::nat) < 9 \<and> (0::nat) < 9 \<and> (2::nat) < 9
   \<and> board dead_cell_board ! 4 ! 4 = 0
   \<and> get_possibilities dead_cell_board 4 4 = Inr {9}
   \<and> board dead_cell_board ! 0 ! 2 = 3
   \<and> get_possibilities dead_cell_board 0 2 = Inr {}"
proof -
  have g: "grid9x9 (board dead_cell_board)" by code_simp
  have e: "board dead_cell_board ! 4 ! 4 = 0" "board dead_cell_board ! 0 ! 2 = 3"
    by code_simp+
  have b: "brute_force_candidates (board dead_cell_board) 4 4 = {9}" by code_simp
  have l: "(0::nat) < 9" "(4::nat) < 9" "(2::nat) < 9" by simp_all
  have "get_possibilities dead_cell_board 4 4
      = Inr (brute_force_candidates (board dead_cell_board) 4 4)"
    by (rule get_possibilities_candidates [OF g l(2) l(2), THEN conjunct2, THEN conjunct2])
  moreover have "get_possibilities dead_cell_board 0 2 = Inr {}"
    using get_possibilities_candidates [OF g l(1) l(3), THEN conjunct1] e(2) by simp
  ultimately show ?thesis
    using g e b by simp
qed

text \<open>
  Claim C9.  On a board of nine by nine cells \<open>get_all_possibilities\<close> returns a
  dict with one entry for each key; its keys are exactly the empty cells for which
  \<open>get_possibilities\<close> returns a non-empty set, and each key is mapped to that set.
  An empty cell with no candidate has no entry.
\<close>

theorem get_all_possibilities_keys:
  assumes "grid9x9 (board b)"
  shows "\<exists>d. get_all_possibilities b = Inr d \<and> distinct (map fst d)
           \<and> (\<forall>r c s. map_of d (r, c) = Some s \<longleftrightarrow>
                 r < 9 \<and> c < 9 \<and> board b ! r ! c = 0 \<and> s \<noteq> {}
                 \<and> get_possibilities b r c = Inr s)"
proof -
  let ?d = "map (entry b) (filter (has_candidates b) all_cells)"
  have fst: "map fst ?d = filter (has_candidates b) all_cells"
    by (simp add: entry_def comp_def)
  have "map_of ?d (r, c) = Some s \<longleftrightarrow>
          r < 9 \<and> c < 9 \<and> board b ! r ! c = 0 \<and> s \<noteq> {} \<and> get_possibilities b r c = Inr s"
    for r c s
  proof -
    have "?d = map (\<lambda>p. (p, brute_force_candidates (board b) (fst p) (snd p)))
        (filter (has_candidates b) all_cells)"
      by (simp add: entry_def)
    then have "map_of ?d (r, c) =
        (if (r, c) \<in> set (filter (has_candidates b) all_cells)
         then Some (brute_force_candidates (board b) r c) else None)"
      by (simp only: map_of_map_restrict) (simp add: restrict_map_def)
    moreover have "get_possibilities b r c = Inr (brute_force_candidates (board b) r c)"
      if "r < 9" "c < 9"
      using assms that by (rule get_possibilities_9x9)
    ultimately show ?thesis
      by (auto simp add: has_candidates_def all_cells_iff val_def)
  qed
  then show ?thesis
    using get_all_possibilities_9x9 [OF assms] fst distinct_all_cells by auto
qed

theorem get_all_possibilities_keys_witness:
  "grid9x9 (board dead_cell_board)
   \<and> get_all_possibilities dead_cell_board = Inr [((4, 4), {9})]
   \<and> board dead_cell_board ! 0 ! 0 = 0
   \<and> get_possibilities dead_cell_board 0 0 = Inr {}
   \<and> map_of [((4, 4), {9::int})] (0::nat, 0::nat) = None
   \<and> get_possibilities dead_cell_board 4 4 = Inr {9}
   \<and> map_of [((4::nat, 4::nat), {9::int})] (4, 4) = Some {9}"
proof -
  have g: "grid9x9 (board dead_cell_board)" by code_simp
  have d: "get_all_possibilities dead_cell_board = Inr [((4, 4), {9})]" by code_simp
  have e: "board dead_cell_board ! 0 ! 0 = 0" by code_simp
  have p: "get_possibilities dead_cell_board 0 0 = Inr {}" by code_simp
  from get_all_possibilities_keys [OF g] d
  have "map_of [((4::nat, 4::nat), {9::int})] (4, 4) = Some {9}
      \<longleftrightarrow> get_possibilities dead_cell_board 4 4 = Inr {9}"
    using e by (auto simp del: map_of.simps)
  with g d e p show ?thesis by simp
qed

section \<open>Hints\<close>

text \<open>
  The deduction that \<open>get_advanced_hint\<close> finds, before it is put into words.
\<close>

lemma advanced_deduction_priority:
  assumes "grid9x9 (board b)"
  shows "\<exists>d. advanced_deduction b = Inr d \<and> get_advanced_hint b = Inr (map_option hint_text d)
     \<and> ((\<exists>r c n. naked_single b r c n) \<longrightarrow>
          (\<exists>r c n. d = Some (NakedSingle r c n) \<and> naked_single b r c n
             \<and> (\<forall>r' c' n'. naked_single b r' c' n' \<longrightarrow> r < r' \<or> (r = r' \<and> c \<le> c'))))
     \<and> (\<not> (\<exists>r c n. naked_single b r c n) \<and> (\<exists>r c n. hidden_single_in_row b r c n) \<longrightarrow>
          (\<exists>r c n. d = Some (HiddenSingleRow r c n) \<and> hidden_single_in_row b r c n
             \<and> (\<forall>r' c' n'. hidden_single_in_row b r' c' n' \<longrightarrow>
                   r < r' \<or> (r = r' \<and> n \<le> n'))))
     \<and> (\<not> (\<exists>r c n. naked_single b r c n) \<and> \<not> (\<exists>r c n. hidden_single_in_row b r c n)
          \<and> (\<exists>r c n. hidden_single_in_column b r c n) \<longrightarrow>
          (\<exists>r c n. d = Some (HiddenSingleColumn r c n) \<and> hidden_single_in_column b r c n
             \<and> (\<forall>r' c' n'. hidden_single_in_column b r' c' n' \<longrightarrow>
                   c < c' \<or> (c = c' \<and> n \<le> n'))))
     \<and> (d = None \<longleftrightarrow>
          \<not> (\<exists>r c n. naked_single b r c n) \<and> \<not> (\<exists>r c n. hidden_single_in_row b r c n)
          \<and> \<not> (\<exists>r c n. hidden_single_in_column b r c n))"
proof -
  note g = assms
  have rendered: "get_advanced_hint b = Inr (map_option hint_text d)"
    if "advanced_deduction b = Inr d" for d
    using that by (simp add: get_advanced_hint_def)
  have sorted: "sorted_wrt (<) [0..<9]" by simp
  have rows_all: "r \<in> set [0..<9]" if "hidden_single_in_row b r c n" for r c n
    using that by (simp add: hidden_single_in_row_def)
  have cols_all: "c \<in> set [0..<9]" if "hidden_single_in_column b r c n" for r c n
    using that by (simp add: hidden_single_in_column_def)
  from find_naked_singles_9x9 [OF g] obtain singles where
    found: "find_naked_singles b = Inr singles
      \<and> (singles = [] \<longrightarrow> (\<forall>r c n. \<not> naked_single b r c n))
      \<and> (\<forall>x xs. singles = x # xs \<longrightarrow>
           (\<exists>r c n. x = (r, c, n) \<and> naked_single b r c n
              \<and> (\<forall>r' c' n'. naked_single b r' c' n' \<longrightarrow> r < r' \<or> (r = r' \<and> c \<le> c'))))" ..
  from found have s: "find_naked_singles b = Inr singles" by (rule conjunct1)
  show ?thesis
  proof (cases singles)
    case (Cons x xs)
    from found [THEN conjunct2, THEN conjunct2, THEN spec, THEN spec, THEN mp, OF Cons]
    obtain r c n where x: "x = (r, c, n)" and ns: "naked_single b r c n"
      and least: "\<forall>r' c' n'. naked_single b r' c' n' \<longrightarrow> r < r' \<or> (r = r' \<and> c \<le> c')"
      by blast
    have d: "advanced_deduction b = Inr (Some (NakedSingle r c n))"
      using s Cons x by (simp add: advanced_deduction_def)
    show ?thesis
      using d rendered [OF d] ns least by (intro exI [of _ "Some (NakedSingle r c n)"]) blast
  next
    case Nil
    with found have no_naked: "\<not> (\<exists>r c n. naked_single b r c n)" by blast
    from first_row_deduction_9x9 [OF g upt_9_in_range sorted] obtain dr where
      rfound: "first_row_deduction b [0..<9] = Inr dr
       \<and> (dr = None \<longrightarrow> (\<forall>r c n. r \<in> set [0..<9] \<longrightarrow> \<not> hidden_single_in_row b r c n))
       \<and> (\<forall>x. dr = Some x \<longrightarrow>
            (\<exists>r c n. x = HiddenSingleRow r c n \<and> r \<in> set [0..<9]
               \<and> hidden_single_in_row b r c n
               \<and> (\<forall>r' c' n'. r' \<in> set [0..<9] \<longrightarrow> hidden_single_in_row b r' c' n' \<longrightarrow>
                     r < r' \<or> (r = r' \<and> n \<le> n'))))" ..
    from rfound have dr: "first_row_deduction b [0..<9] = Inr dr" by (rule conjunct1)
    show ?thesis
    proof (cases dr)
      case (Some x)
      from rfound [THEN conjunct2, THEN conjunct2, THEN spec, THEN mp, OF Some]
      obtain r c n where x: "x = HiddenSingleRow r c n" and hs: "hidden_single_in_row b r c n"
        and least0: "\<forall>r' c' n'. r' \<in> set [0..<9] \<longrightarrow> hidden_single_in_row b r' c' n' \<longrightarrow>
                     r < r' \<or> (r = r' \<and> n \<le> n')"
        by blast
      have least: "\<forall>r' c' n'. hidden_single_in_row b r' c' n' \<longrightarrow> r < r' \<or> (r = r' \<and> n \<le> n')"
        using least0 rows_all by blast
      have d: "advanced_deduction b = Inr (Some (HiddenSingleRow r c n))"
        using s Nil dr Some x by (simp add: advanced_deduction_def)
      show ?thesis
        using d rendered [OF d] no_naked hs least
        by (intro exI [of _ "Some (HiddenSingleRow r c n)"]) blast
    next
      case None
      with rfound have "\<forall>r c n. r \<in> set [0..<9] \<longrightarrow> \<not> hidden_single_in_row b r c n"
        by blast
      with rows_all have no_row: "\<not> (\<exists>r c n. hidden_single_in_row b r c n)" by blast
      from first_column_deduction_9x9 [OF g upt_9_in_range sorted] obtain dc where
        cfound: "first_column_deduction b [0..<9] = Inr dc
         \<and> (dc = None \<longrightarrow> (\<forall>r c n. c \<in> set [0..<9] \<longrightarrow> \<not> hidden_single_in_column b r c n))
         \<and> (\<forall>x. dc = Some x \<longrightarrow>
              (\<exists>r c n. x = HiddenSingleColumn r c n \<and> c \<in> set [0..<9]
                 \<and> hidden_single_in_column b r c n
                 \<and> (\<forall>r' c' n'. c' \<in> set [0..<9] \<longrightarrow> hidden_single_in_column b r' c' n' \<longrightarrow>
                       c < c' \<or> (c = c' \<and> n \<le> n'))))" ..
      from cfound have dc: "first_column_deduction b [0..<9] = Inr dc" by (rule conjunct1)
      have d: "advanced_deduction b = Inr dc"
        using s Nil dr None dc by (simp add: advanced_deduction_def)
      show ?thesis
      proof (cases dc)
        case (Some x)
        from cfound [THEN conjunct2, THEN conjunct2, THEN spec, THEN mp, OF Some]
        obtain r c n where x: "x = HiddenSingleColumn r c n"
          and hs: "hidden_single_in_column b r c n"
          and least0: "\<forall>r' c' n'. c' \<in> set [0..<9] \<longrightarrow> hidden_single_in_column b r' c' n' \<longrightarrow>
                       c < c' \<or> (c = c' \<and> n \<le> n')"
          by blast
        have least: "\<forall>r' c' n'. hidden_single_in_column b r' c' n' \<longrightarrow>
            c < c' \<or> (c = c' \<and> n \<le> n')"
          using least0 cols_all by blast
        have d': "advanced_deduction b = Inr (Some (HiddenSingleColumn r c n))"
          using d Some x by simp
        show ?thesis
          using d' rendered [OF d'] no_naked no_row hs least
          by (intro exI [of _ "Some (HiddenSingleColumn r c n)"]) blast
      next
        case None
        with cfound have "\<forall>r c n. c \<in> set [0..<9] \<longrightarrow> \<not> hidden_single_in_column b r c n"
          by blast
        with cols_all have no_col: "\<not> (\<exists>r c n. hidden_single_in_column b r c n)" by blast
        have d': "advanced_deduction b = Inr None" using d None by simp
        show ?thesis
          using d' rendered [OF d'] no_naked no_row no_col
          by (intro exI [of _ None]) simp
      qed
    qed
  qed
qed

text \<open>
  Claim C8.  On a board of nine by nine cells \<open>get_advanced_hint\<close> returns a sentence
  or nothing.  If some empty cell has exactly one candidate, it returns the sentence
  \<open>Naked Single: Cell (r+1, c+1) MUST be n (only possibility)\<close> for the first such
  cell \<open>(r, c)\<close> in row-major order and its candidate \<open>n\<close>.  Otherwise, if some row
  has a hidden single, it returns the sentence
  \<open>Hidden Single in Row r+1: Number n can only go at (r+1, c+1)\<close> for the first such
  row and its least such digit.  Otherwise, if some column has a hidden single, it
  returns the sentence \<open>Hidden Single in Column c+1: Number n can only go at (r+1, c+1)\<close>
  for the first such column and its least such digit.  It returns nothing exactly
  when there is no naked single and no hidden single of a row or of a column.  The
  numbers in the sentences are single decimal digits.
\<close>

theorem get_advanced_hint_priority:
  assumes "grid9x9 (board b)"
  shows "\<exists>res. get_advanced_hint b = Inr res
     \<and> ((\<exists>r c n. naked_single b r c n) \<longrightarrow>
          (\<exists>r c n. res = Some
               (''Naked Single: Cell ('' @ [''0123456789'' ! (r + 1)] @ '', ''
                 @ [''0123456789'' ! (c + 1)] @ '') MUST be '' @ [''0123456789'' ! nat n]
                 @ '' (only possibility)'')
             \<and> naked_single b r c n
             \<and> (\<forall>r' c' n'. naked_single b r' c' n' \<longrightarrow> r < r' \<or> (r = r' \<and> c \<le> c'))))
     \<and> (\<not> (\<exists>r c n. naked_single b r c n) \<and> (\<exists>r c n. hidden_single_in_row b r c n) \<longrightarrow>
          (\<exists>r c n. res = Some
               (''Hidden Single in Row '' @ [''0123456789'' ! (r + 1)] @ '': Number ''
                 @ [''0123456789'' ! nat n] @ '' can only go at (''
                 @ [''0123456789'' ! (r + 1)] @ '', '' @ [''0123456789'' ! (c + 1)] @ '')'')
             \<and> hidden_single_in_row b r c n
             \<and> (\<forall>r' c' n'. hidden_single_in_row b r' c' n' \<longrightarrow>
                   r < r' \<or> (r = r' \<and> n \<le> n'))))
     \<and> (\<not> (\<exists>r c n. naked_single b r c n) \<and> \<not> (\<exists>r c n. hidden_single_in_row b r c n)
          \<and> (\<exists>r c n. hidden_single_in_column b r c n) \<longrightarrow>
          (\<exists>r c n. res = Some
               (''Hidden Single in Column '' @ [''0123456789'' ! (c + 1)] @ '': Number ''
                 @ [''0123456789'' ! nat n] @ '' can only go at (''
                 @ [''0123456789'' ! (r + 1)] @ '', '' @ [''0123456789'' ! (c + 1)] @ '')'')
             \<and> hidden_single_in_column b r c n
             \<and> (\<forall>r' c' n'. hidden_single_in_column b r' c' n' \<longrightarrow>
                   c < c' \<or> (c = c' \<and> n \<le> n'))))
     \<and> (res = None \<longleftrightarrow>
          \<not> (\<exists>r c n. naked_single b r c n) \<and> \<not> (\<exists>r c n. hidden_single_in_row b r c n)
          \<and> \<not> (\<exists>r c n. hidden_single_in_column b r c n))"
proof -
  from advanced_deduction_priority [OF assms] obtain d where
    found: "advanced_deduction b = Inr d \<and> get_advanced_hint b = Inr (map_option hint_text d)
     \<and> ((\<exists>r c n. naked_single b r c n) \<longrightarrow>
          (\<exists>r c n. d = Some (NakedSingle r c n) \<and> naked_single b r c n
             \<and> (\<forall>r' c' n'. naked_single b r' c' n' \<longrightarrow> r < r' \<or> (r = r' \<and> c \<le> c'))))
     \<and> (\<not> (\<exists>r c n. naked_single b r c n) \<and> (\<exists>r c n. hidden_single_in_row b r c n) \<longrightarrow>
          (\<exists>r c n. d = Some (HiddenSingleRow r c n) \<and> hidden_single_in_row b r c n
             \<and> (\<forall>r' c' n'. hidden_single_in_row b r' c' n' \<longrightarrow>
                   r < r' \<or> (r = r' \<and> n \<le> n'))))
     \<and> (\<not> (\<exists>r c n. naked_single b r c n) \<and> \<not> (\<exists>r c n. hidden_single_in_row b r c n)
          \<and> (\<exists>r c n. hidden_single_in_column b r c n) \<longrightarrow>
          (\<exists>r c n. d = Some (HiddenSingleColumn r c n) \<and> hidden_single_in_column b r c n
             \<and> (\<forall>r' c' n'. hidden_single_in_column b r' c' n' \<longrightarrow>
                   c < c' \<or> (c = c' \<and> n \<le> n'))))
     \<and> (d = None \<longleftrightarrow>
          \<not> (\<exists>r c n. naked_single b r c n) \<and> \<not> (\<exists>r c n. hidden_single_in_row b r c n)
          \<and> \<not> (\<exists>r c n. hidden_single_in_column b r c n))" ..
  let ?res = "map_option hint_text d"
  from found have res: "get_advanced_hint b = Inr ?res"
    by (rule conjunct2 [THEN conjunct1])
  note naked = found [THEN conjunct2, THEN conjunct2, THEN conjunct1]
  note rows = found [THEN conjunct2, THEN conjunct2, THEN conjunct2, THEN conjunct1]
  note cols = found [THEN conjunct2, THEN conjunct2, THEN conjunct2, THEN conjunct2,
      THEN conjunct1]
  note none = found [THEN conjunct2, THEN conjunct2, THEN conjunct2, THEN conjunct2,
      THEN conjunct2]
  have c1: "\<exists>r c n. ?res = Some
               (''Naked Single: Cell ('' @ [''0123456789'' ! (r + 1)] @ '', ''
                 @ [''0123456789'' ! (c + 1)] @ '') MUST be '' @ [''0123456789'' ! nat n]
                 @ '' (only possibility)'')
             \<and> naked_single b r c n
             \<and> (\<forall>r' c' n'. naked_single b r' c' n' \<longrightarrow> r < r' \<or> (r = r' \<and> c \<le> c'))"
    if ex: "\<exists>r c n. naked_single b r c n"
  proof -
    from naked [THEN mp, OF ex] obtain r c n where
      d: "d = Some (NakedSingle r c n)" and ns: "naked_single b r c n"
      and least: "\<forall>r' c' n'. naked_single b r' c' n' \<longrightarrow> r < r' \<or> (r = r' \<and> c \<le> c')"
      by blast
    from naked_single_digits [OF assms ns]
    have rng: "r < 9" "c < 9" "1 \<le> n" "n \<le> 9" by simp_all
    from d have "?res = Some (hint_text (NakedSingle r c n))" by simp
    then have "?res = Some
               (''Naked Single: Cell ('' @ [''0123456789'' ! (r + 1)] @ '', ''
                 @ [''0123456789'' ! (c + 1)] @ '') MUST be '' @ [''0123456789'' ! nat n]
                 @ '' (only possibility)'')"
      by (simp only: hint_text_digits(1) [OF rng])
    with ns least show ?thesis by blast
  qed
  have c2: "\<exists>r c n. ?res = Some
               (''Hidden Single in Row '' @ [''0123456789'' ! (r + 1)] @ '': Number ''
                 @ [''0123456789'' ! nat n] @ '' can only go at (''
                 @ [''0123456789'' ! (r + 1)] @ '', '' @ [''0123456789'' ! (c + 1)] @ '')'')
             \<and> hidden_single_in_row b r c n
             \<and> (\<forall>r' c' n'. hidden_single_in_row b r' c' n' \<longrightarrow>
                   r < r' \<or> (r = r' \<and> n \<le> n'))"
    if ex: "\<not> (\<exists>r c n. naked_single b r c n) \<and> (\<exists>r c n. hidden_single_in_row b r c n)"
  proof -
    from rows [THEN mp, OF ex] obtain r c n where
      d: "d = Some (HiddenSingleRow r c n)" and hs: "hidden_single_in_row b r c n"
      and least: "\<forall>r' c' n'. hidden_single_in_row b r' c' n' \<longrightarrow>
                   r < r' \<or> (r = r' \<and> n \<le> n')"
      by blast
    from hidden_single_in_row_digits [OF hs]
    have rng: "r < 9" "c < 9" "1 \<le> n" "n \<le> 9" by simp_all
    from d have "?res = Some (hint_text (HiddenSingleRow r c n))" by simp
    then have "?res = Some
               (''Hidden Single in Row '' @ [''0123456789'' ! (r + 1)] @ '': Number ''
                 @ [''0123456789'' ! nat n] @ '' can only go at (''
                 @ [''0123456789'' ! (r + 1)] @ '', '' @ [''0123456789'' ! (c + 1)] @ '')'')"
      by (simp only: hint_text_digits(2) [OF rng])
    with hs least show ?thesis by blast
  qed
  have c3: "\<exists>r c n. ?res = Some
               (''Hidden Single in Column '' @ [''0123456789'' ! (c + 1)] @ '': Number ''
                 @ [''0123456789'' ! nat n] @ '' can only go at (''
                 @ [''0123456789'' ! (r + 1)] @ '', '' @ [''0123456789'' ! (c + 1)] @ '')'')
             \<and> hidden_single_in_column b r c n
             \<and> (\<forall>r' c' n'. hidden_single_in_column b r' c' n' \<longrightarrow>
                   c < c' \<or> (c = c' \<and> n \<le> n'))"
    if ex: "\<not> (\<exists>r c n. naked_single b r c n) \<and> \<not> (\<exists>r c n. hidden_single_in_row b r c n)
          \<and> (\<exists>r c n. hidden_single_in_column b r c n)"
  proof -
    from cols [THEN mp, OF ex] obtain r c n where
      d: "d = Some (HiddenSingleColumn r c n)" and hs: "hidden_single_in_column b r c n"
      and least: "\<forall>r' c' n'. hidden_single_in_column b r' c' n' \<longrightarrow>
                   c < c' \<or> (c = c' \<and> n \<le> n')"
      by blast
    from hidden_single_in_column_digits [OF hs]
    have rng: "r < 9" "c < 9" "1 \<le> n" "n \<le> 9" by simp_all
    from d have "?res = Some (hint_text (HiddenSingleColumn r c n))" by simp
    then have "?res = Some
               (''Hidden Single in Column '' @ [''0123456789'' ! (c + 1)] @ '': Number ''
                 @ [''0123456789'' ! nat n] @ '' can only go at (''
                 @ [''0123456789'' ! (r + 1)] @ '', '' @ [''0123456789'' ! (c + 1)] @ '')'')"
      by (simp only: hint_text_digits(3) [OF rng])
    with hs least show ?thesis by blast
  qed
  have c4: "?res = None \<longleftrightarrow>
          \<not> (\<exists>r c n. naked_single b r c n) \<and> \<not> (\<exists>r c n. hidden_single_in_row b r c n)
          \<and> \<not> (\<exists>r c n. hidden_single_in_column b r c n)"
    using none by simp
  show ?thesis
    apply (rule exI [of _ ?res])
    apply (intro conjI impI)
    apply (rule res)
    apply (erule c1)
    apply (erule c2)
    apply (erule c3)
    apply (rule c4)
    done
qed

theorem get_advanced_hint_priority_witness:
  "grid9x9 (board dead_cell_board) \<and> naked_single dead_cell_board 4 4 9
   \<and> get_advanced_hint dead_cell_board
       = Inr (Some ''Naked Single: Cell (5, 5) MUST be 9 (only possibility)'')
   \<and> grid9x9 (board row_single_board)
   \<and> \<not> (\<exists>r c n. naked_single row_single_board r c n)
   \<and> hidden_single_in_row row_single_board 2 8 6
   \<and> get_advanced_hint row_single_board
       = Inr (Some ''Hidden Single in Row 3: Number 6 can only go at (3, 9)'')
   \<and> grid9x9 (board column_single_board)
   \<and> \<not> (\<exists>r c n. naked_single column_single_board r c n)
   \<and> \<not> (\<exists>r c n. hidden_single_in_row column_single_board r c n)
   \<and> hidden_single_in_column column_single_board 6 3 6
   \<and> get_advanced_hint column_single_board
       = Inr (Some ''Hidden Single in Column 4: Number 6 can only go at (7, 4)'')
   \<and> grid9x9 (board no_single_board)
   \<and> \<not> (\<exists>r c n. naked_single no_single_board r c n)
   \<and> \<not> (\<exists>r c n. hidden_single_in_row no_single_board r c n)
   \<and> \<not> (\<exists>r c n. hidden_single_in_column no_single_board r c n)
   \<and> get_advanced_hint no_single_board = Inr None"
proof -
  have g: "grid9x9 (board dead_cell_board)" "grid9x9 (board row_single_board)"
    "grid9x9 (board column_single_board)" "grid9x9 (board no_single_board)"
    by code_simp+
  have h1: "get_advanced_hint dead_cell_board
       = Inr (Some ''Naked Single: Cell (5, 5) MUST be 9 (only possibility)'')"
    by code_simp
  have h2: "get_advanced_hint row_single_board
       = Inr (Some ''Hidden Single in Row 3: Number 6 can only go at (3, 9)'')"
    by code_simp
  have h3: "get_advanced_hint column_single_board
       = Inr (Some ''Hidden Single in Column 4: Number 6 can only go at (7, 4)'')"
    by code_simp
  have h4: "get_advanced_hint no_single_board = Inr None"
    by code_simp
  have s: "naked_single dead_cell_board 4 4 9" "hidden_single_in_row row_single_board 2 8 6"
    "hidden_single_in_column column_single_board 6 3 6"
    by code_simp+
  have "\<not> (\<exists>r c n. naked_single row_single_board r c n)"
    using get_advanced_hint_priority [OF g(2)] h2 by auto
  moreover have "\<not> (\<exists>r c n. naked_single column_single_board r c n)
      \<and> \<not> (\<exists>r c n. hidden_single_in_row column_single_board r c n)"
    using get_advanced_hint_priority [OF g(3)] h3 by auto
  moreover have "\<not> (\<exists>r c n. naked_single no_single_board r c n)
      \<and> \<not> (\<exists>r c n. hidden_single_in_row no_single_board r c n)
      \<and> \<not> (\<exists>r c n. hidden_single_in_column no_single_board r c n)"
    using get_advanced_hint_priority [OF g(4)] h4 by auto
  ultimately show ?thesis
    using g s h1 h2 h3 h4 by blast
qed

section \<open>Generated puzzles\<close>

text \<open>
  Claim C6.  Whenever \<open>generate_puzzle\<close> returns a Board, for whatever shuffles and
  draws, the \<open>initial_board\<close> of that Board has exactly as many empty cells as the
  difficulty asks for: 30 for Easy, 40 for Medium, 50 for Hard, 60 for Expert (and 40
  for any other label).
\<close>

theorem generate_puzzle_empty_count:
  assumes "generate_puzzle rnd picks difficulty = Some (Inr b)"
  shows "(difficulty = ''Easy'' \<longrightarrow> empty_count (initial_board b) = 30)
       \<and> (difficulty = ''Medium'' \<longrightarrow> empty_count (initial_board b) = 40)
       \<and> (difficulty = ''Hard'' \<longrightarrow> empty_count (initial_board b) = 50)
       \<and> (difficulty = ''Expert'' \<longrightarrow> empty_count (initial_board b) = 60)
       \<and> empty_count (initial_board b)
           = (case difficulty_map difficulty of None \<Rightarrow> 40 | Some n \<Rightarrow> n)"
proof -
  let ?n = "case difficulty_map difficulty of None \<Rightarrow> 40 | Some n \<Rightarrow> n"
  have e: "grid9x9 empty_grid" by code_simp
  from fill_result(1) [OF e, of rnd 0] obtain ok g1 k1 where
    f: "fill_board_randomly rnd empty_grid 0 = Inr (ok, g1, k1)" "grid9x9 g1"
      "if ok then full g1 else g1 = empty_grid"
    by blast
  from assms f(1) obtain g2 where
    r: "remove_cells g1 0 ?n picks = Some (Inr g2)"
    and i: "SudokuBoard_init (Some g2) = Inr b"
    by (auto simp add: generate_puzzle_def Let_def split: option.splits sum.splits)
  have ok
  proof (rule ccontr)
    assume "\<not> ok"
    with f(3) have "g1 = empty_grid" by simp
    moreover have "\<forall>row \<in> set empty_grid. \<forall>v \<in> set row. v = 0"
      by (simp add: empty_grid_def)
    ultimately show False
      using remove_cells_nothing_to_remove [OF _ cells_to_remove_positive, of g1 difficulty picks g2] r
      by simp
  qed
  with f have "empty_count g1 = 0" by (simp add: empty_count_full)
  with remove_cells_count [OF r] have "empty_count g2 = ?n" by simp
  with SudokuBoard_init_initial [OF i] have n: "empty_count (initial_board b) = ?n" by simp
  then show ?thesis by (simp add: difficulty_map_def)
qed

theorem generate_puzzle_empty_count_witness:
  "generate_puzzle solved_first (take 30 all_cells) ''Easy''
     = Some (Inr \<lparr>board = easy_grid, initial_board = easy_grid, solution = Some solved_grid\<rparr>)
   \<and> empty_count easy_grid = 30"
proof -
  have r: "generate_puzzle solved_first (take 30 all_cells) ''Easy''
     = Some (Inr \<lparr>board = easy_grid, initial_board = easy_grid, solution = Some solved_grid\<rparr>)"
    by code_simp
  from generate_puzzle_empty_count [OF r] r show ?thesis by simp
qed

end
